theory Spec2Isabelle
  imports Complex_Main "HOL-Library.Sublist" "HOL-Library.AList"
begin

section \<open>Session identifiers\<close>

text \<open>
  A Python \<^verbatim>\<open>str\<close> is modelled as a \<^typ>\<open>string\<close> whose characters stand for the code
  points below 256, so \<^const>\<open>length\<close> is Python's \<^verbatim>\<open>len\<close>.
\<close>

subsection \<open>The string methods used by \<^verbatim>\<open>uuid.UUID\<close>\<close>

text \<open>\<^verbatim>\<open>s.replace(old, '')\<close>: every non-overlapping occurrence of \<open>old\<close>, found from the
  left, is removed.\<close>

function str_remove :: "string \<Rightarrow> string \<Rightarrow> string" where
  "str_remove old s =
     (if s = [] then []
      else if old \<noteq> [] \<and> prefix old s then str_remove old (drop (length old) s)
      else hd s # str_remove old (tl s))"
  by pat_completeness auto
termination
  by (relation "measure (\<lambda>(old, s). length s)") auto

declare str_remove.simps [simp del]

text \<open>\<^verbatim>\<open>s.strip(chars)\<close>: leading and trailing characters that occur in \<open>chars\<close> go.\<close>

definition str_strip :: "string \<Rightarrow> string \<Rightarrow> string" where
  "str_strip chars s =
     rev (dropWhile (\<lambda>c. c \<in> set chars) (rev (dropWhile (\<lambda>c. c \<in> set chars) s)))"

subsection \<open>\<^verbatim>\<open>int(text, 16)\<close>\<close>

text \<open>
  The digit table of the interpreter: \<^verbatim>\<open>0-9\<close> are 0 to 9, \<^verbatim>\<open>a-z\<close> and \<^verbatim>\<open>A-Z\<close> are 10 to
  35; a character is a digit of base 16 when its value is below 16.
\<close>

definition digit_value :: "char \<Rightarrow> nat option" where
  "digit_value c =
     (let n = (of_char c :: nat) in
      if 48 \<le> n \<and> n \<le> 57 then Some (n - 48)
      else if 97 \<le> n \<and> n \<le> 122 then Some (n - 87)
      else if 65 \<le> n \<and> n \<le> 90 then Some (n - 55)
      else None)"

definition is_hex_digit :: "char \<Rightarrow> bool" where
  "is_hex_digit c = (case digit_value c of None \<Rightarrow> False | Some v \<Rightarrow> v < 16)"

text \<open>
  White space for \<^verbatim>\<open>int\<close>: the ASCII characters 9 to 13 and 32, and, of the code points
  from 128 to 255, the two that Unicode classes as spaces (133 and 160).
\<close>

definition is_int_space :: "char \<Rightarrow> bool" where
  "is_int_space c = ((of_char c :: nat) \<in> {9, 10, 11, 12, 13, 32, 133, 160})"

text \<open>The value of a run of digits and underscores (underscores carry no value).\<close>

definition digits_value :: "string \<Rightarrow> nat" where
  "digits_value run =
     foldl (\<lambda>acc c. case digit_value c of None \<Rightarrow> acc | Some v \<Rightarrow> 16 * acc + v) 0 run"

fun double_underscore :: "string \<Rightarrow> bool" where
  "double_underscore (a # b # cs) =
     ((a = CHR ''_'' \<and> b = CHR ''_'') \<or> double_underscore (b # cs))"
| "double_underscore _ = False"

text \<open>
  \<^verbatim>\<open>int(text, 16)\<close>, \<open>None\<close> for \<^verbatim>\<open>ValueError\<close>: leading white space, an optional sign, an
  optional \<^verbatim>\<open>0x\<close> or \<^verbatim>\<open>0X\<close> followed by at most one underscore, then a non-empty run of
  hexadecimal digits with single underscores between them, then white space only.
\<close>

definition int_sign :: "string \<Rightarrow> bool \<times> string" where
  "int_sign s =
     (case s of
        c # cs \<Rightarrow> if c = CHR ''+'' then (False, cs)
                  else if c = CHR ''-'' then (True, cs)
                  else (False, s)
      | [] \<Rightarrow> (False, s))"

definition int_prefix16 :: "string \<Rightarrow> string" where
  "int_prefix16 s =
     (case s of
        a # b # cs \<Rightarrow>
          if a = CHR ''0'' \<and> (b = CHR ''x'' \<or> b = CHR ''X'')
          then (case cs of c # cs' \<Rightarrow> if c = CHR ''_'' then cs' else cs | [] \<Rightarrow> cs)
          else s
      | _ \<Rightarrow> s)"

definition py_int16 :: "string \<Rightarrow> int option" where
  "py_int16 text =
     (let (neg, s1) = int_sign (dropWhile is_int_space text);
          s2 = int_prefix16 s1;
          run = takeWhile (\<lambda>c. is_hex_digit c \<or> c = CHR ''_'') s2;
          rest = dropWhile (\<lambda>c. is_hex_digit c \<or> c = CHR ''_'') s2
      in if run = [] \<or> hd run = CHR ''_'' \<or> last run = CHR ''_'' \<or> double_underscore run
            \<or> \<not> list_all is_int_space rest
         then None
         else Some (if neg then - int (digits_value run) else int (digits_value run)))"

subsection \<open>\<^verbatim>\<open>uuid.UUID(text)\<close>\<close>

text \<open>
  The constructor of the standard library, called with the text alone: it removes
  \<^verbatim>\<open>urn:\<close> and \<^verbatim>\<open>uuid:\<close>, strips braces from both ends, removes hyphens, requires 32
  characters to be left, reads them in base 16, and requires the number to fit 128 bits.
  The result is the number, \<open>None\<close> when the constructor raises \<^verbatim>\<open>ValueError\<close>.
\<close>

definition uuid_UUID :: "string \<Rightarrow> int option" where
  "uuid_UUID text =
     (let hex = str_remove ''uuid:'' (str_remove ''urn:'' text);
          hex = str_remove ''-'' (str_strip ''{}'' hex)
      in if length hex \<noteq> 32 then None
         else (case py_int16 hex of
                 None \<Rightarrow> None
               | Some n \<Rightarrow> if 0 \<le> n \<and> n < 2 ^ 128 then Some n else None))"

subsection \<open>The validator\<close>

definition allowed_chars :: "char set" where
  "allowed_chars =
     set ''abcdefghijklmnopqrstuvwxyzABCDEFGHIJKLMNOPQRSTUVWXYZ0123456789-_''"

definition is_valid_session_id :: "string \<Rightarrow> bool" where
  "is_valid_session_id sid =
     (if sid = [] then False
      else if uuid_UUID sid \<noteq> None then True
      else if \<not> (3 \<le> length sid \<and> length sid \<le> 64) then False
      else list_all (\<lambda>c. c \<in> allowed_chars) sid)"

text \<open>
  The two forms the specification names, written from its words: (a) the canonical text of
  a UUID, five groups of 8, 4, 4, 4 and 12 hexadecimal digits joined by hyphens, and
  (b) 3 to 64 characters, each an ASCII letter, a digit, a hyphen or an underscore.
\<close>

fun hex_groups :: "nat list \<Rightarrow> string \<Rightarrow> bool" where
  "hex_groups [] s = False"
| "hex_groups [n] s = (length s = n \<and> list_all is_hex_digit s)"
| "hex_groups (n # ns) s =
     (n \<le> length s \<and> list_all is_hex_digit (take n s) \<and>
      (case drop n s of [] \<Rightarrow> False | c # rest \<Rightarrow> c = CHR ''-'' \<and> hex_groups ns rest))"

definition spec_canonical_uuid :: "string \<Rightarrow> bool" where
  "spec_canonical_uuid s = hex_groups [8, 4, 4, 4, 12] s"

definition spec_custom_id :: "string \<Rightarrow> bool" where
  "spec_custom_id s =
     (3 \<le> length s \<and> length s \<le> 64 \<and>
      list_all (\<lambda>c. c \<in> set ''abcdefghijklmnopqrstuvwxyzABCDEFGHIJKLMNOPQRSTUVWXYZ0123456789-_'') s)"

section \<open>Values and the JSON codec\<close>

text \<open>
  The exceptions: \<open>InvalidIdentifier\<close> is the \<^verbatim>\<open>ValueError\<close> raised for a rejected id,
  \<open>IOFailure\<close> the \<^verbatim>\<open>OSError\<close> of \<^verbatim>\<open>open\<close>, \<open>DecodeFailure\<close> the error of
  \<^verbatim>\<open>json.load\<close>, \<open>EncodeFailure\<close> the \<^verbatim>\<open>TypeError\<close> of \<^verbatim>\<open>json.dump\<close>. A call returns
  \<open>Inl\<close> of the exception it raises or \<open>Inr\<close> of its value, together with the directory
  it leaves.
\<close>

datatype error = InvalidIdentifier | IOFailure | DecodeFailure | EncodeFailure

text \<open>
  A Python \<^verbatim>\<open>float\<close> is given by the text \<^verbatim>\<open>float.__repr__\<close> prints for it, which
  determines the float (\<^verbatim>\<open>nan\<close>, \<^verbatim>\<open>inf\<close> and \<^verbatim>\<open>-inf\<close> included).
\<close>

datatype pyfloat = PyFloat string

text \<open>
  The values of a JSON text, which are also the values \<^verbatim>\<open>json.load\<close> returns: an object
  is a list of members in the order of the text, a dictionary when its keys are distinct.
\<close>

datatype json = JNull | JBool bool | JInt int | JFloat pyfloat | JStr string
  | JArr "json list" | JObj "(string \<times> json) list"

text \<open>
  The values \<^verbatim>\<open>user_data\<close> may hold (\<^verbatim>\<open>Dict[str, Any]\<close>, nothing checks the keys): the
  JSON-like ones, tuples, dictionaries with keys of any kind, and \<open>PObject\<close> for every
  other object (a set, bytes, an instance of a class).
\<close>

datatype pyval = PNone | PBool bool | PInt int | PFloat pyfloat | PStr string
  | PList "pyval list" | PTuple "pyval list" | PDict "(pyval \<times> pyval) list" | PObject

subsection \<open>\<^verbatim>\<open>json.dump\<close> and \<^verbatim>\<open>json.load\<close>\<close>

text \<open>\<^verbatim>\<open>int.__repr__\<close>: the decimal digits, with a minus sign below zero.\<close>

function nat_repr :: "nat \<Rightarrow> string" where
  "nat_repr n =
     (if n < 10 then [char_of (48 + n)]
      else nat_repr (n div 10) @ [char_of (48 + n mod 10)])"
  by pat_completeness auto
termination
  by (relation "measure id") auto

declare nat_repr.simps [simp del]

definition int_repr :: "int \<Rightarrow> string" where
  "int_repr i = (if i < 0 then CHR ''-'' # nat_repr (nat (- i)) else nat_repr (nat i))"

text \<open>The encoder's text of a float: \<^verbatim>\<open>NaN\<close>, \<^verbatim>\<open>Infinity\<close>, \<^verbatim>\<open>-Infinity\<close> or its \<^verbatim>\<open>repr\<close>.\<close>

definition floatstr :: "pyfloat \<Rightarrow> string" where
  "floatstr f =
     (case f of PyFloat r \<Rightarrow>
        if r = ''nan'' then ''NaN''
        else if r = ''inf'' then ''Infinity''
        else if r = ''-inf'' then ''-Infinity''
        else r)"

text \<open>
  The key of a member: a string stays, a float, a boolean, \<^verbatim>\<open>None\<close> and an integer
  become their text, in this order of tests, and any other key raises \<^verbatim>\<open>TypeError\<close>.
\<close>

definition dump_key :: "pyval \<Rightarrow> error + string" where
  "dump_key k =
     (case k of
        PStr s \<Rightarrow> Inr s
      | PFloat f \<Rightarrow> Inr (floatstr f)
      | PBool b \<Rightarrow> Inr (if b then ''true'' else ''false'')
      | PNone \<Rightarrow> Inr ''null''
      | PInt i \<Rightarrow> Inr (int_repr i)
      | _ \<Rightarrow> Inl EncodeFailure)"

text \<open>
  \<^verbatim>\<open>json.dump\<close>, as the JSON value of the text it writes: lists and tuples become
  arrays, dictionaries become objects, and an object of any other kind raises
  \<^verbatim>\<open>TypeError\<close>.
\<close>

fun json_dump :: "pyval \<Rightarrow> error + json"
  and json_dump_list :: "pyval list \<Rightarrow> error + json list"
  and json_dump_items :: "(pyval \<times> pyval) list \<Rightarrow> error + (string \<times> json) list" where
  "json_dump PNone = Inr JNull"
| "json_dump (PBool b) = Inr (JBool b)"
| "json_dump (PInt i) = Inr (JInt i)"
| "json_dump (PFloat f) = Inr (JFloat f)"
| "json_dump (PStr s) = Inr (JStr s)"
| "json_dump (PList xs) = (case json_dump_list xs of Inl e \<Rightarrow> Inl e | Inr js \<Rightarrow> Inr (JArr js))"
| "json_dump (PTuple xs) = (case json_dump_list xs of Inl e \<Rightarrow> Inl e | Inr js \<Rightarrow> Inr (JArr js))"
| "json_dump (PDict kvs) = (case json_dump_items kvs of Inl e \<Rightarrow> Inl e | Inr ms \<Rightarrow> Inr (JObj ms))"
| "json_dump PObject = Inl EncodeFailure"
| "json_dump_list [] = Inr []"
| "json_dump_list (x # xs) =
     (case json_dump x of
        Inl e \<Rightarrow> Inl e
      | Inr j \<Rightarrow> (case json_dump_list xs of Inl e \<Rightarrow> Inl e | Inr js \<Rightarrow> Inr (j # js)))"
| "json_dump_items [] = Inr []"
| "json_dump_items (kv # kvs) =
     (case dump_key (fst kv) of
        Inl e \<Rightarrow> Inl e
      | Inr k \<Rightarrow>
          (case json_dump (snd kv) of
             Inl e \<Rightarrow> Inl e
           | Inr j \<Rightarrow>
               (case json_dump_items kvs of Inl e \<Rightarrow> Inl e | Inr ms \<Rightarrow> Inr ((k, j) # ms))))"

text \<open>
  \<^verbatim>\<open>json.load\<close> builds a dictionary from the members of an object one after the other:
  a key that comes again keeps its place and takes the later value.
\<close>

definition dict_of :: "(string \<times> 'v) list \<Rightarrow> (string \<times> 'v) list" where
  "dict_of kvs = foldl (\<lambda>d kv. AList.update (fst kv) (snd kv) d) [] kvs"

fun json_load :: "json \<Rightarrow> json"
  and json_load_list :: "json list \<Rightarrow> json list"
  and json_load_items :: "(string \<times> json) list \<Rightarrow> (string \<times> json) list" where
  "json_load (JArr xs) = JArr (json_load_list xs)"
| "json_load (JObj kvs) = JObj (dict_of (json_load_items kvs))"
| "json_load JNull = JNull"
| "json_load (JBool b) = JBool b"
| "json_load (JInt i) = JInt i"
| "json_load (JFloat f) = JFloat f"
| "json_load (JStr s) = JStr s"
| "json_load_list [] = []"
| "json_load_list (x # xs) = json_load x # json_load_list xs"
| "json_load_items [] = []"
| "json_load_items (kv # kvs) = (fst kv, json_load (snd kv)) # json_load_items kvs"

text \<open>A loaded value as a Python value, to compare it with what was given.\<close>

fun py_of_json :: "json \<Rightarrow> pyval"
  and py_of_json_list :: "json list \<Rightarrow> pyval list"
  and py_of_json_items :: "(string \<times> json) list \<Rightarrow> (pyval \<times> pyval) list" where
  "py_of_json JNull = PNone"
| "py_of_json (JBool b) = PBool b"
| "py_of_json (JInt i) = PInt i"
| "py_of_json (JFloat f) = PFloat f"
| "py_of_json (JStr s) = PStr s"
| "py_of_json (JArr xs) = PList (py_of_json_list xs)"
| "py_of_json (JObj kvs) = PDict (py_of_json_items kvs)"
| "py_of_json_list [] = []"
| "py_of_json_list (x # xs) = py_of_json x # py_of_json_list xs"
| "py_of_json_items [] = []"
| "py_of_json_items (kv # kvs) = (PStr (fst kv), py_of_json (snd kv)) # py_of_json_items kvs"

text \<open>
  The values JSON gives back as they were: \<^verbatim>\<open>None\<close>, booleans, integers, floats other
  than \<^verbatim>\<open>nan\<close> (which is unequal to itself), strings, and lists and dictionaries of such
  values, the keys of a dictionary being strings.
\<close>

definition key_text :: "pyval \<Rightarrow> string option" where
  "key_text k = (case k of PStr s \<Rightarrow> Some s | _ \<Rightarrow> None)"

fun json_native :: "pyval \<Rightarrow> bool"
  and json_native_list :: "pyval list \<Rightarrow> bool"
  and json_native_items :: "(pyval \<times> pyval) list \<Rightarrow> bool" where
  "json_native PNone = True"
| "json_native (PBool b) = True"
| "json_native (PInt i) = True"
| "json_native (PFloat f) = (f \<noteq> PyFloat ''nan'')"
| "json_native (PStr s) = True"
| "json_native (PList xs) = json_native_list xs"
| "json_native (PTuple xs) = False"
| "json_native (PDict kvs) = json_native_items kvs"
| "json_native PObject = False"
| "json_native_list [] = True"
| "json_native_list (x # xs) = (json_native x \<and> json_native_list xs)"
| "json_native_items [] = True"
| "json_native_items (kv # kvs) =
     (key_text (fst kv) \<noteq> None \<and> fst kv \<notin> fst ` set kvs \<and> json_native (snd kv)
      \<and> json_native_items kvs)"

section \<open>The session store\<close>

subsection \<open>Records and files\<close>

text \<open>
  The dictionary \<^verbatim>\<open>create_session\<close> builds, as \<^verbatim>\<open>json.load\<close> returns it, one field for
  each key. \<open>exp\<close> is \<open>None\<close> when the key is missing or holds \<^verbatim>\<open>null\<close>:
  \<^verbatim>\<open>session.get("exp")\<close> gives \<^verbatim>\<open>None\<close> for both, and \<open>exp_null\<close> tells the two apart
  (true for a \<^verbatim>\<open>null\<close>). The field is called \<open>exp_time\<close> here.
\<close>

record session =
  session_uuid :: string
  session_id :: string
  token :: string
  api_url :: string
  portal_domain :: string
  user_email :: string
  app_user_id :: string
  company_id :: string
  profile_id :: string
  exp_time :: "int option"
  exp_null :: bool
  created_at :: int
  last_accessed :: int
  user_data :: "(string \<times> json) list"

text \<open>
  A file of the sessions directory: what \<^verbatim>\<open>json.load\<close> makes of its text (a session
  dictionary, or \<open>Unparsable\<close> when it raises), and whether the file may be opened for
  writing. The directory is an association list from the stem of each \<^verbatim>\<open>*.json\<close> file
  to the file; its order stands for the order in which \<^verbatim>\<open>glob\<close> yields the files.
\<close>

datatype content = Unparsable | Parsed session

record session_file =
  content :: content
  writable :: bool

type_synonym store = "(string \<times> session_file) list"

subsection \<open>Time\<close>

text \<open>
  \<^verbatim>\<open>time.time()\<close> is a number of seconds, not always whole; each call of the store reads
  it as \<open>now\<close>. \<^verbatim>\<open>int(x)\<close> drops the fraction, rounding towards zero.
\<close>

definition py_int :: "real \<Rightarrow> int" where
  "py_int x = (if 0 \<le> x then \<lfloor>x\<rfloor> else \<lceil>x\<rceil>)"

definition is_expired :: "real \<Rightarrow> session \<Rightarrow> bool" where
  "is_expired now s =
     (case exp_time s of
        None \<Rightarrow> False
      | Some e \<Rightarrow> if e = 0 then False else of_int (e - 60) \<le> now)"

subsection \<open>Operations\<close>

text \<open>The path of a session is its id with a fixed extension: the id is the key.\<close>

definition get_session_path :: "string \<Rightarrow> error + string" where
  "get_session_path sid =
     (if \<not> is_valid_session_id sid then Inl InvalidIdentifier else Inr sid)"

text \<open>
  \<^verbatim>\<open>create_session\<close>. \<open>gen\<close> is the text \<^verbatim>\<open>str(uuid.uuid4())\<close> gives when it is called.
  Opening for writing fails on a file that exists and is not writable; otherwise it
  leaves the file empty, and \<^verbatim>\<open>json.dump\<close> writes the dictionary piece by piece, the
  \<^verbatim>\<open>user_data\<close> last. When it raises there, the file is left with the beginning of a
  text, which does not parse. Otherwise the file holds what \<^verbatim>\<open>json.load\<close> makes of the
  text: \<open>session_data\<close> with its strings and integers as they were and with the
  \<^verbatim>\<open>user_data\<close> that the two passes make of the members written.
\<close>

definition create_session ::
  "real \<Rightarrow> string \<Rightarrow> string \<Rightarrow> string \<Rightarrow> string \<Rightarrow> string \<Rightarrow> string \<Rightarrow> string \<Rightarrow> string \<Rightarrow>
   int option \<Rightarrow> (pyval \<times> pyval) list option \<Rightarrow> string option \<Rightarrow> store \<Rightarrow>
   (error + string) \<times> store" where
  "create_session now gen tok url pdom email uid cid pid ex ud sid_opt st =
     (case (case sid_opt of
              None \<Rightarrow> Inr gen
            | Some sid \<Rightarrow>
                if sid = [] then Inr gen
                else if \<not> is_valid_session_id sid then Inl InvalidIdentifier
                else Inr sid) of
        Inl e \<Rightarrow> (Inl e, st)
      | Inr final_session_id \<Rightarrow>
          (case get_session_path final_session_id of
             Inl e \<Rightarrow> (Inl e, st)
           | Inr path \<Rightarrow>
               (let given = (case ud of None \<Rightarrow> [] | Some d \<Rightarrow> d);
                    session_data = (\<lambda>members. \<lparr>
                      session_uuid = final_session_id,
                      session_id = final_session_id,
                      token = tok,
                      api_url = url,
                      portal_domain = pdom,
                      user_email = email,
                      app_user_id = uid,
                      company_id = cid,
                      profile_id = pid,
                      exp_time = ex,
                      exp_null = (ex = None),
                      created_at = py_int now,
                      last_accessed = py_int now,
                      user_data = dict_of (json_load_items members) \<rparr>);
                    w = (case map_of st path of None \<Rightarrow> True | Some f \<Rightarrow> writable f)
                in if \<not> w then (Inl IOFailure, st)
                   else (case json_dump_items given of
                           Inl e \<Rightarrow>
                             (Inl e, AList.update path \<lparr>content = Unparsable, writable = w\<rparr> st)
                         | Inr members \<Rightarrow>
                             (Inr final_session_id,
                              AList.update path
                                \<lparr>content = Parsed (session_data members), writable = w\<rparr> st)))))"

text \<open>\<^verbatim>\<open>delete_session\<close>: the body of its \<^verbatim>\<open>try\<close>, then the function with its handler.\<close>

definition delete_session_try :: "string \<Rightarrow> store \<Rightarrow> (error + bool) \<times> store" where
  "delete_session_try sid st =
     (case get_session_path sid of
        Inl e \<Rightarrow> (Inl e, st)
      | Inr path \<Rightarrow>
          if map_of st path \<noteq> None then (Inr True, AList.delete path st)
          else (Inr False, st))"

definition delete_session :: "string \<Rightarrow> store \<Rightarrow> (error + bool) \<times> store" where
  "delete_session sid st =
     (if sid = [] then (Inr False, st)
      else (case delete_session_try sid st of
              (Inl e, st') \<Rightarrow> (Inr False, st')
            | (Inr b, st') \<Rightarrow> (Inr b, st')))"

text \<open>
  \<^verbatim>\<open>_update_access_time\<close>: the body of its \<^verbatim>\<open>try\<close> opens the file for reading and
  writing, which needs the file to exist and to be writable, loads it and writes it back
  with the new time; the handler passes over every exception.
\<close>

definition update_access_time_try :: "real \<Rightarrow> string \<Rightarrow> store \<Rightarrow> error + store" where
  "update_access_time_try now sid st =
     (case get_session_path sid of
        Inl e \<Rightarrow> Inl e
      | Inr path \<Rightarrow>
          (case map_of st path of
             None \<Rightarrow> Inl IOFailure
           | Some f \<Rightarrow>
               if \<not> writable f then Inl IOFailure
               else (case content f of
                       Unparsable \<Rightarrow> Inl DecodeFailure
                     | Parsed s \<Rightarrow>
                         Inr (AList.update path
                               (f\<lparr>content := Parsed (s\<lparr>last_accessed := py_int now\<rparr>)\<rparr>) st))))"

definition update_access_time :: "real \<Rightarrow> string \<Rightarrow> store \<Rightarrow> store" where
  "update_access_time now sid st =
     (case update_access_time_try now sid st of Inl e \<Rightarrow> st | Inr st' \<Rightarrow> st')"

text \<open>\<^verbatim>\<open>load_session\<close>: the body of its \<^verbatim>\<open>try\<close>, then the function with its handler.\<close>

definition load_session_try ::
  "real \<Rightarrow> string \<Rightarrow> store \<Rightarrow> (error + session option) \<times> store" where
  "load_session_try now sid st =
     (case get_session_path sid of
        Inl e \<Rightarrow> (Inl e, st)
      | Inr path \<Rightarrow>
          (case map_of st path of
             None \<Rightarrow> (Inr None, st)
           | Some f \<Rightarrow>
               (case content f of
                  Unparsable \<Rightarrow> (Inl DecodeFailure, st)
                | Parsed session_data \<Rightarrow>
                    if is_expired now session_data
                    then (Inr None, snd (delete_session sid st))
                    else (Inr (Some session_data), update_access_time now sid st))))"

definition load_session ::
  "real \<Rightarrow> string \<Rightarrow> store \<Rightarrow> (error + session option) \<times> store" where
  "load_session now sid st =
     (if sid = [] then (Inr None, st)
      else (case load_session_try now sid st of
              (Inl e, st') \<Rightarrow> (Inr None, st')
            | (Inr r, st') \<Rightarrow> (Inr r, st')))"

text \<open>
  \<^verbatim>\<open>cleanup_expired_sessions\<close>: the files are listed once, then each is opened by its
  own path (no check of the stem), loaded and tested; every exception inside the loop
  is passed over. The count goes up whenever the test holds.
\<close>

fun cleanup_loop :: "real \<Rightarrow> string list \<Rightarrow> store \<Rightarrow> nat \<Rightarrow> nat \<times> store" where
  "cleanup_loop now [] st count = (count, st)"
| "cleanup_loop now (stem # stems) st count =
     (case map_of st stem of
        None \<Rightarrow> cleanup_loop now stems st count
      | Some f \<Rightarrow>
          (case content f of
             Unparsable \<Rightarrow> cleanup_loop now stems st count
           | Parsed session_data \<Rightarrow>
               if is_expired now session_data
               then cleanup_loop now stems (snd (delete_session stem st)) (count + 1)
               else cleanup_loop now stems st count))"

definition cleanup_expired_sessions :: "real \<Rightarrow> store \<Rightarrow> nat \<times> store" where
  "cleanup_expired_sessions now st = cleanup_loop now (map fst st) st 0"

text \<open>
  \<^verbatim>\<open>list_sessions\<close>: each listed stem goes through \<^verbatim>\<open>load_session\<close>. The two times of a
  summary are formatted by the platform (\<^verbatim>\<open>time.localtime\<close> and \<^verbatim>\<open>time.strftime\<close>),
  taken here as the parameter \<open>fmt\<close>, \<open>None\<close> when it raises; \<^verbatim>\<open>session.get("exp", 0)\<close>
  is 0 for a missing key and \<^verbatim>\<open>None\<close> for a stored \<^verbatim>\<open>null\<close>, and
  \<^verbatim>\<open>time.localtime(None)\<close> is the current time.
  An exception inside the loop drops that session from the list.
\<close>

definition shown_expiry :: "real \<Rightarrow> session \<Rightarrow> int" where
  "shown_expiry now s =
     (case exp_time s of
        None \<Rightarrow> if exp_null s then \<lfloor>now\<rfloor> else 0
      | Some e \<Rightarrow> e)"

record summary =
  sum_session_uuid :: string
  sum_session_id :: string
  sum_user_email :: string
  sum_app_user_id :: string
  sum_company_id :: string
  sum_profile_id :: string
  sum_created_at :: string
  sum_expires_at :: string

fun list_loop ::
  "(int \<Rightarrow> string option) \<Rightarrow> real \<Rightarrow> string list \<Rightarrow> store \<Rightarrow> summary list \<Rightarrow>
   summary list \<times> store" where
  "list_loop fmt now [] st sessions = (sessions, st)"
| "list_loop fmt now (stem # stems) st sessions =
     (case load_session now stem st of
        (Inr (Some s), st') \<Rightarrow>
          (case (fmt (created_at s),
                 fmt (shown_expiry now s)) of
             (Some c, Some x) \<Rightarrow>
               list_loop fmt now stems st'
                 (sessions @ [\<lparr> sum_session_uuid = stem, sum_session_id = stem,
                                sum_user_email = user_email s,
                                sum_app_user_id = app_user_id s,
                                sum_company_id = company_id s,
                                sum_profile_id = profile_id s,
                                sum_created_at = c, sum_expires_at = x \<rparr>])
           | _ \<Rightarrow> list_loop fmt now stems st' sessions)
      | (_, st') \<Rightarrow> list_loop fmt now stems st' sessions)"

definition list_sessions ::
  "(int \<Rightarrow> string option) \<Rightarrow> real \<Rightarrow> store \<Rightarrow> summary list \<times> store" where
  "list_sessions fmt now st = list_loop fmt now (map fst st) st []"

subsection \<open>Predicates and sample data for the statements\<close>

text \<open>A record that is there, parses and is not expired.\<close>

definition live :: "real \<Rightarrow> string \<Rightarrow> store \<Rightarrow> bool" where
  "live now sid st =
     (case map_of st sid of
        None \<Rightarrow> False
      | Some f \<Rightarrow> (case content f of Unparsable \<Rightarrow> False | Parsed s \<Rightarrow> \<not> is_expired now s))"

text \<open>A live record under an accepted id whose two times the platform can format.\<close>

definition listable :: "(int \<Rightarrow> string option) \<Rightarrow> real \<Rightarrow> string \<Rightarrow> store \<Rightarrow> bool" where
  "listable fmt now sid st =
     (is_valid_session_id sid \<and>
      (case map_of st sid of
         None \<Rightarrow> False
       | Some f \<Rightarrow>
           (case content f of
              Unparsable \<Rightarrow> False
            | Parsed s \<Rightarrow>
                \<not> is_expired now s \<and> fmt (created_at s) \<noteq> None \<and>
                fmt (shown_expiry now s) \<noteq> None)))"

text \<open>The characters a text that \<^verbatim>\<open>int(text, 16)\<close> accepts is made of.\<close>

definition int_chars :: "char set" where
  "int_chars = {c. is_int_space c \<or> is_hex_digit c \<or> c \<in> set ''+-_xX''}"

text \<open>A session as \<^verbatim>\<open>create_session\<close> writes it at time 1000 under the id \<^verbatim>\<open>abc\<close>.\<close>

definition sample_session :: "int option \<Rightarrow> session" where
  "sample_session ex = \<lparr>
     session_uuid = ''abc'', session_id = ''abc'', token = ''tok'',
     api_url = ''https://api'', portal_domain = ''portal'', user_email = ''u@x'',
     app_user_id = ''7'', company_id = ''3'', profile_id = ''5'', exp_time = ex,
     exp_null = (ex = None), created_at = 1000, last_accessed = 1000, user_data = [] \<rparr>"

definition sample_file :: "int option \<Rightarrow> bool \<Rightarrow> session_file" where
  "sample_file ex w = \<lparr>content = Parsed (sample_session ex), writable = w\<rparr>"

section \<open>Basic facts\<close>

subsection \<open>Two sample identifiers\<close>

lemma uuid_slash: "uuid_UUID ''a/b'' = None"
  by (simp add: uuid_UUID_def str_remove.simps str_strip_def)

lemma slash_id_rejected: "\<not> is_valid_session_id ''a/b''"
  by (simp add: is_valid_session_id_def uuid_slash allowed_chars_def)

lemma uuid_abc: "uuid_UUID ''abc'' = None"
  by (simp add: uuid_UUID_def str_remove.simps str_strip_def)

lemma abc_valid: "is_valid_session_id ''abc''"
  by (simp add: is_valid_session_id_def uuid_abc allowed_chars_def)

subsection \<open>One operation at a time\<close>

lemma get_session_path_valid: "is_valid_session_id sid \<Longrightarrow> get_session_path sid = Inr sid"
  by (simp add: get_session_path_def)

lemma get_session_path_invalid:
  "\<not> is_valid_session_id sid \<Longrightarrow> get_session_path sid = Inl InvalidIdentifier"
  by (simp add: get_session_path_def)

lemma valid_nonempty: "is_valid_session_id sid \<Longrightarrow> sid \<noteq> []"
  by (auto simp: is_valid_session_id_def)

lemma load_session_invalid: "\<not> is_valid_session_id sid \<Longrightarrow> load_session now sid st = (Inr None, st)"
  by (simp add: load_session_def load_session_try_def get_session_path_invalid)

lemma delete_session_invalid: "\<not> is_valid_session_id sid \<Longrightarrow> delete_session sid st = (Inr False, st)"
  by (simp add: delete_session_def delete_session_try_def get_session_path_invalid)

lemma delete_session_present:
  "is_valid_session_id sid \<Longrightarrow> map_of st sid = Some f \<Longrightarrow>
   delete_session sid st = (Inr True, AList.delete sid st)"
  by (simp add: delete_session_def delete_session_try_def get_session_path_valid valid_nonempty)

lemma delete_session_missing:
  "map_of st sid = None \<Longrightarrow> delete_session sid st = (Inr False, st)"
  by (cases "is_valid_session_id sid")
     (simp_all add: delete_session_def delete_session_try_def get_session_path_valid
        get_session_path_invalid)

lemma create_invalid:
  "\<not> is_valid_session_id sid \<Longrightarrow> sid \<noteq> [] \<Longrightarrow>
   create_session now gen tok url pdom email uid cid pid ex ud (Some sid) st = (Inl InvalidIdentifier, st)"
  by (simp add: create_session_def)

lemma load_session_unparsable:
  "map_of st sid = Some f \<Longrightarrow> content f = Unparsable \<Longrightarrow> load_session now sid st = (Inr None, st)"
  by (cases "is_valid_session_id sid")
     (simp_all add: load_session_def load_session_try_def get_session_path_valid
        get_session_path_invalid)

lemma load_session_expired:
  "is_valid_session_id sid \<Longrightarrow> map_of st sid = Some f \<Longrightarrow> content f = Parsed s \<Longrightarrow>
   is_expired now s \<Longrightarrow> load_session now sid st = (Inr None, AList.delete sid st)"
  by (simp add: load_session_def load_session_try_def get_session_path_valid valid_nonempty
      delete_session_present)

lemma load_session_live:
  "is_valid_session_id sid \<Longrightarrow> map_of st sid = Some f \<Longrightarrow> content f = Parsed s \<Longrightarrow>
   \<not> is_expired now s \<Longrightarrow>
   load_session now sid st = (Inr (Some s), update_access_time now sid st)"
  by (simp add: load_session_def load_session_try_def get_session_path_valid valid_nonempty)

lemma load_session_missing:
  "map_of st sid = None \<Longrightarrow> load_session now sid st = (Inr None, st)"
  by (cases "is_valid_session_id sid")
     (simp_all add: load_session_def load_session_try_def get_session_path_valid
        get_session_path_invalid)

lemma update_access_time_writable:
  "is_valid_session_id sid \<Longrightarrow> map_of st sid = Some f \<Longrightarrow> content f = Parsed s \<Longrightarrow> writable f \<Longrightarrow>
   update_access_time now sid st
     = AList.update sid (f\<lparr>content := Parsed (s\<lparr>last_accessed := py_int now\<rparr>)\<rparr>) st"
  by (simp add: update_access_time_def update_access_time_try_def get_session_path_valid)

lemma update_access_time_readonly:
  "map_of st sid = Some f \<Longrightarrow> \<not> writable f \<Longrightarrow>
   update_access_time_try now sid st \<noteq> Inr st' \<and> update_access_time now sid st = st"
  by (cases "is_valid_session_id sid")
    (simp_all add: update_access_time_def update_access_time_try_def get_session_path_valid get_session_path_invalid)

subsection \<open>What an operation leaves of the records, and the loops\<close>

lemma py_int_mono: "x \<le> y \<Longrightarrow> py_int x \<le> py_int y"
proof -
  assume xy: "x \<le> y"
  show ?thesis
  proof (cases "0 \<le> x")
    case True
    with xy show ?thesis by (simp add: py_int_def floor_mono)
  next
    case False
    show ?thesis
    proof (cases "0 \<le> y")
      case True
      from False have "\<lceil>x\<rceil> \<le> 0" by (simp add: ceiling_le_zero)
      moreover from True have "0 \<le> \<lfloor>y\<rfloor>" by simp
      ultimately have "\<lceil>x\<rceil> \<le> \<lfloor>y\<rfloor>" by linarith
      then show ?thesis using False True by (simp add: py_int_def)
    next
      case ny: False
      with False xy show ?thesis by (simp add: py_int_def ceiling_mono)
    qed
  qed
qed

lemma load_session_frame:
  "k \<noteq> sid \<Longrightarrow> map_of (snd (load_session now k st)) sid = map_of st sid"
  by (auto simp: load_session_def load_session_try_def get_session_path_def
      delete_session_def delete_session_try_def update_access_time_def update_access_time_try_def
      AList.update_conv' AList.delete_conv'
      split: option.splits content.splits sum.splits prod.splits if_splits)

lemma delete_session_frame:
  "k \<noteq> sid \<Longrightarrow> map_of (snd (delete_session k st)) sid = map_of st sid"
  by (auto simp: get_session_path_def
      delete_session_def delete_session_try_def 
      AList.update_conv' AList.delete_conv'
      split: option.splits content.splits sum.splits prod.splits if_splits)

lemma load_session_store_cases:
  assumes "map_of st sid = Some f" "content f = Parsed s" "\<not> is_expired now s"
  shows "snd (load_session now sid st) = st \<or>
         snd (load_session now sid st)
           = AList.update sid (f\<lparr>content := Parsed (s\<lparr>last_accessed := py_int now\<rparr>)\<rparr>) st"
  using assms
  by (auto simp: load_session_def load_session_try_def get_session_path_def
      update_access_time_def update_access_time_try_def
      split: option.splits content.splits sum.splits prod.splits if_splits)

lemma load_session_touch:
  assumes "map_of st sid = Some f" "content f = Parsed s" "\<not> is_expired now s"
  shows "\<exists>l. map_of (snd (load_session now sid st)) sid
              = Some (f\<lparr>content := Parsed (s\<lparr>last_accessed := l\<rparr>)\<rparr>)
           \<and> (l = last_accessed s \<or> l = py_int now)"
proof -
  have same: "f\<lparr>content := Parsed (s\<lparr>last_accessed := last_accessed s\<rparr>)\<rparr> = f"
    using assms(2) by simp
  from load_session_store_cases[OF assms] show ?thesis
  proof
    assume "snd (load_session now sid st) = st"
    with assms(1) same have
      "map_of (snd (load_session now sid st)) sid
         = Some (f\<lparr>content := Parsed (s\<lparr>last_accessed := last_accessed s\<rparr>)\<rparr>)"
      by (simp del: surjective_pairing)
    then show ?thesis by blast
  next
    assume "snd (load_session now sid st)
           = AList.update sid (f\<lparr>content := Parsed (s\<lparr>last_accessed := py_int now\<rparr>)\<rparr>) st"
    then show ?thesis by (auto simp: AList.update_conv')
  qed
qed

lemma is_expired_touch [simp]: "is_expired now (s\<lparr>last_accessed := l\<rparr>) = is_expired now s"
  by (simp add: is_expired_def)

lemma shown_expiry_touch [simp]: "shown_expiry now (s\<lparr>last_accessed := l\<rparr>) = shown_expiry now s"
  by (simp add: shown_expiry_def)

lemma live_load:
  assumes "live now sid st"
  shows "live now sid (snd (load_session now k st))"
proof (cases "k = sid")
  case False
  then show ?thesis using assms by (simp add: live_def load_session_frame)
next
  case True
  from assms obtain f s where f: "map_of st sid = Some f" "content f = Parsed s" "\<not> is_expired now s"
    by (auto simp: live_def split: option.splits content.splits)
  from load_session_touch[OF f] True show ?thesis
    using f by (auto simp: live_def)
qed

lemma cleanup_loop_keeps:
  "map_of st sid = Some f \<Longrightarrow> content f = Parsed s \<Longrightarrow> \<not> is_expired now s \<Longrightarrow>
   map_of (snd (cleanup_loop now stems st n)) sid = Some f"
proof (induction stems arbitrary: st n)
  case Nil
  then show ?case by simp
next
  case (Cons stem stems)
  show ?case
  proof (cases "map_of st stem")
    case None
    then show ?thesis using Cons by simp
  next
    case (Some g)
    show ?thesis
    proof (cases "content g")
      case Unparsable
      then show ?thesis using Some Cons by simp
    next
      case (Parsed t)
      show ?thesis
      proof (cases "is_expired now t")
        case False
        then show ?thesis using Some Parsed Cons by simp
      next
        case True
        with Some Parsed Cons.prems have ne: "stem \<noteq> sid" by auto
        have "map_of (snd (delete_session stem st)) sid = Some f"
          using ne Cons.prems(1) by (simp add: delete_session_frame)
        from Cons.IH[OF this Cons.prems(2,3)] show ?thesis
          using Some Parsed True by simp
      qed
    qed
  qed
qed

lemma load_dead_result: "\<not> live now sid st \<Longrightarrow> fst (load_session now sid st) = Inr None"
  by (auto simp: live_def load_session_def load_session_try_def get_session_path_def
      split: option.splits content.splits sum.splits prod.splits if_splits)

lemma load_dead_preserved:
  assumes "\<not> live now sid st"
  shows "\<not> live now sid (snd (load_session now k st))"
proof (cases "k = sid")
  case False
  then show ?thesis using assms by (simp add: live_def load_session_frame)
next
  case True
  then show ?thesis using assms
  by (auto simp: live_def load_session_def load_session_try_def get_session_path_def
      delete_session_def delete_session_try_def AList.delete_conv'
      split: option.splits content.splits sum.splits prod.splits if_splits)
qed

lemma list_loop_absent:
  "\<not> live now sid st \<Longrightarrow> x \<in> set (fst (list_loop fmt now stems st acc)) \<Longrightarrow>
   sum_session_id x = sid \<Longrightarrow> x \<in> set acc"
proof (induction stems arbitrary: st acc)
  case Nil
  then show ?case by simp
next
  case (Cons stem stems)
  obtain r st' where ld: "load_session now stem st = (r, st')" by (cases "load_session now stem st")
  have dead': "\<not> live now sid st'"
    using load_dead_preserved[OF Cons.prems(1), of stem] ld by simp
  show ?case
  proof (cases "stem = sid")
    case True
    with load_dead_result[OF Cons.prems(1)] ld have "r = Inr None" by simp
    with ld Cons.prems(2) have "x \<in> set (fst (list_loop fmt now stems st' acc))" by simp
    from Cons.IH[OF dead' this Cons.prems(3)] show ?thesis .
  next
    case False
    have "x \<in> set (fst (list_loop fmt now stems st' acc)) \<or>
          (\<exists>y. sum_session_id y = stem \<and> x \<in> set (fst (list_loop fmt now stems st' (acc @ [y]))))"
      using Cons.prems(2) ld
      by (auto split: sum.splits option.splits)
    then show ?thesis
    proof
      assume "x \<in> set (fst (list_loop fmt now stems st' acc))"
      from Cons.IH[OF dead' this Cons.prems(3)] show ?thesis .
    next
      assume "\<exists>y. sum_session_id y = stem \<and> x \<in> set (fst (list_loop fmt now stems st' (acc @ [y])))"
      then obtain y where y: "sum_session_id y = stem"
        "x \<in> set (fst (list_loop fmt now stems st' (acc @ [y])))" by blast
      from Cons.IH[OF dead' y(2) Cons.prems(3)] have "x \<in> set (acc @ [y])" .
      with y(1) False Cons.prems(3) show ?thesis by auto
    qed
  qed
qed

lemma list_loop_mono:
  "x \<in> set acc \<Longrightarrow> x \<in> set (fst (list_loop fmt now stems st acc))"
proof (induction stems arbitrary: st acc)
  case Nil
  then show ?case by simp
next
  case (Cons stem stems)
  then show ?case
    by (auto split: sum.splits option.splits prod.splits)
qed

lemma list_loop_step:
  "\<exists>acc'. list_loop fmt now (stem # stems) st acc
           = list_loop fmt now stems (snd (load_session now stem st)) acc'"
  by (auto split: sum.splits option.splits prod.splits)

lemma listable_load:
  assumes "listable fmt now sid st"
  shows "listable fmt now sid (snd (load_session now k st))"
proof (cases "k = sid")
  case False
  then show ?thesis using assms by (simp add: listable_def load_session_frame)
next
  case True
  from assms obtain f s where f: "map_of st sid = Some f" "content f = Parsed s" "\<not> is_expired now s"
    by (auto simp: listable_def split: option.splits content.splits)
  from load_session_touch[OF f] True show ?thesis
    using f assms by (auto simp: listable_def)
qed

lemma list_loop_present:
  "listable fmt now sid st \<Longrightarrow> sid \<in> set stems \<Longrightarrow>
   \<exists>x \<in> set (fst (list_loop fmt now stems st acc)). sum_session_id x = sid"
proof (induction stems arbitrary: st acc)
  case Nil
  then show ?case by simp
next
  case (Cons stem stems)
  have keep: "listable fmt now sid (snd (load_session now stem st))"
    using Cons.prems(1) by (rule listable_load)
  show ?case
  proof (cases "stem = sid")
    case True
    from Cons.prems(1) obtain f s where f: "is_valid_session_id sid" "map_of st sid = Some f"
      "content f = Parsed s" "\<not> is_expired now s" "fmt (created_at s) \<noteq> None"
      "fmt (shown_expiry now s) \<noteq> None"
      by (auto simp: listable_def split: option.splits content.splits)
    from f(5,6) obtain c x where cx: "fmt (created_at s) = Some c"
      "fmt (shown_expiry now s) = Some x" by auto
    have ld: "load_session now sid st = (Inr (Some s), update_access_time now sid st)"
      using f(1-4) by (rule load_session_live)
    let ?y = "\<lparr> sum_session_uuid = sid, sum_session_id = sid,
                 sum_user_email = user_email s, sum_app_user_id = app_user_id s,
                 sum_company_id = company_id s, sum_profile_id = profile_id s,
                 sum_created_at = c, sum_expires_at = x \<rparr>"
    have eq: "list_loop fmt now (stem # stems) st acc
                = list_loop fmt now stems (update_access_time now sid st) (acc @ [?y])"
      using True ld cx by simp
    have "?y \<in> set (fst (list_loop fmt now stems (update_access_time now sid st) (acc @ [?y])))"
      by (rule list_loop_mono) simp
    then have "?y \<in> set (fst (list_loop fmt now (stem # stems) st acc))"
      by (simp only: eq)
    moreover have "sum_session_id ?y = sid" by simp
    ultimately show ?thesis by blast
  next
    case False
    with Cons.prems(2) have mem: "sid \<in> set stems" by simp
    obtain acc' where st: "list_loop fmt now (stem # stems) st acc
           = list_loop fmt now stems (snd (load_session now stem st)) acc'"
      using list_loop_step by blast
    from Cons.IH[OF keep mem, of acc'] st show ?thesis by simp
  qed
qed

lemma list_loop_live:
  "live now sid st \<Longrightarrow> live now sid (snd (list_loop fmt now stems st acc))"
proof (induction stems arbitrary: st acc)
  case Nil
  then show ?case by simp
next
  case (Cons stem stems)
  obtain acc' where st: "list_loop fmt now (stem # stems) st acc
           = list_loop fmt now stems (snd (load_session now stem st)) acc'"
    using list_loop_step by blast
  from Cons.IH[OF live_load[OF Cons.prems], of stem acc'] st show ?case by simp
qed

lemma map_of_keys: "map_of st sid = Some f \<Longrightarrow> sid \<in> set (map fst st)"
  by (metis map_of_eq_None_iff option.distinct(1) set_map)

lemma is_expired_iff:
  "exp_time s = Some e \<Longrightarrow> e \<noteq> 0 \<Longrightarrow> is_expired now s \<longleftrightarrow> of_int e - 60 \<le> now"
  by (simp add: is_expired_def)

lemma is_expired_none: "exp_time s = None \<Longrightarrow> \<not> is_expired now s"
  by (simp add: is_expired_def)

lemma is_expired_zero: "exp_time s = Some 0 \<Longrightarrow> \<not> is_expired now s"
  by (simp add: is_expired_def)

lemma list_sessions_absent:
  assumes "\<not> live now sid st"
  shows "sid \<notin> sum_session_id ` set (fst (list_sessions fmt now st))"
proof
  assume "sid \<in> sum_session_id ` set (fst (list_sessions fmt now st))"
  then obtain x where x: "x \<in> set (fst (list_loop fmt now (map fst st) st []))"
    "sum_session_id x = sid" by (auto simp: list_sessions_def)
  from list_loop_absent[OF assms x] show False by simp
qed

lemma list_sessions_present:
  assumes "listable fmt now sid st"
  shows "sid \<in> sum_session_id ` set (fst (list_sessions fmt now st))"
proof -
  from assms obtain f where "map_of st sid = Some f"
    by (auto simp: listable_def split: option.splits)
  then have "sid \<in> set (map fst st)" by (rule map_of_keys)
  from list_loop_present[OF assms this, of "[]"] show ?thesis
    by (auto simp: list_sessions_def)
qed

lemma unexpired_kept_by_load:
  assumes "map_of st sid = Some f" "content f = Parsed s" "\<not> is_expired now s"
  shows "\<exists>l. map_of (snd (load_session now k st)) sid
               = Some (f\<lparr>content := Parsed (s\<lparr>last_accessed := l\<rparr>)\<rparr>)"
proof (cases "k = sid")
  case True
  with load_session_touch[OF assms] show ?thesis by blast
next
  case False
  have "f\<lparr>content := Parsed (s\<lparr>last_accessed := last_accessed s\<rparr>)\<rparr> = f"
    using assms(2) by simp
  with False assms(1) have "map_of (snd (load_session now k st)) sid
               = Some (f\<lparr>content := Parsed (s\<lparr>last_accessed := last_accessed s\<rparr>)\<rparr>)"
    by (simp add: load_session_frame del: surjective_pairing)
  then show ?thesis by blast
qed

lemma delete_session_removes:
  "is_valid_session_id sid \<Longrightarrow> map_of (snd (delete_session sid st)) sid = None"
  by (cases "map_of st sid")
     (simp_all add: delete_session_missing delete_session_present AList.delete_conv')

lemma update_access_time_cases:
  assumes "map_of st sid = Some f" and "content f = Parsed s"
  shows "update_access_time now sid st = st \<or>
         update_access_time now sid st
           = AList.update sid (f\<lparr>content := Parsed (s\<lparr>last_accessed := py_int now\<rparr>)\<rparr>) st"
  using assms
  by (auto simp: update_access_time_def update_access_time_try_def get_session_path_def
      split: sum.splits)

lemma update_access_time_frame:
  "k \<noteq> sid \<Longrightarrow> map_of (update_access_time now sid st) k = map_of st k"
  by (auto simp: update_access_time_def update_access_time_try_def get_session_path_def
      AList.update_conv' split: sum.splits option.splits content.splits if_splits)

lemma update_access_time_try_failure:
  "update_access_time_try now sid st = Inl e \<Longrightarrow> update_access_time now sid st = st"
  by (simp add: update_access_time_def)

subsection \<open>The UUID parser and the characters of an accepted id\<close>

lemma str_remove_absent:
  "old \<noteq> [] \<Longrightarrow> hd old \<notin> set s \<Longrightarrow> str_remove old s = s"
proof (induction s)
  case Nil
  then show ?case by (simp add: str_remove.simps)
next
  case (Cons c cs)
  from Cons.prems have np: "\<not> prefix old (c # cs)"
    by (cases old) auto
  from Cons have "str_remove old cs = cs" by simp
  with np show ?case by (simp add: str_remove.simps[of old "c # cs"])
qed

lemma str_strip_id:
  "s \<noteq> [] \<Longrightarrow> hd s \<notin> set chars \<Longrightarrow> last s \<notin> set chars \<Longrightarrow> str_strip chars s = s"
proof -
  assume ne: "s \<noteq> []" and h: "hd s \<notin> set chars" and l: "last s \<notin> set chars"
  from ne h have a: "dropWhile (\<lambda>c. c \<in> set chars) s = s" by (cases s) auto
  from ne l have "hd (rev s) \<notin> set chars" by (simp add: hd_rev)
  moreover from ne have "rev s \<noteq> []" by simp
  ultimately have b: "dropWhile (\<lambda>c. c \<in> set chars) (rev s) = rev s" by (cases "rev s") auto
  show ?thesis by (simp add: str_strip_def a b)
qed

lemma str_remove_hyphen: "str_remove ''-'' s = filter (\<lambda>c. c \<noteq> CHR ''-'') s"
proof (induction s)
  case Nil
  then show ?case by (simp add: str_remove.simps)
next
  case (Cons c cs)
  then show ?case by (simp add: str_remove.simps[of "''-''" "c # cs"])
qed

lemma hex_not_special:
  assumes "is_hex_digit c"
  shows "c \<noteq> CHR ''-''" "c \<noteq> CHR ''+''" "c \<noteq> CHR ''_''" "c \<noteq> CHR ''x''" "c \<noteq> CHR ''X''"
    "c \<noteq> CHR ''u''" "c \<noteq> CHR ''{''" "c \<noteq> CHR ''}''" "\<not> is_int_space c"
  using assms
  by (auto simp: is_hex_digit_def digit_value_def is_int_space_def Let_def split: if_splits)

lemma digits_value_bound_aux:
  "list_all is_hex_digit h \<Longrightarrow>
   foldl (\<lambda>acc c. case digit_value c of None \<Rightarrow> acc | Some v \<Rightarrow> 16 * acc + v) a h
     < 16 ^ length h * (a + 1)"
proof (induction h arbitrary: a)
  case Nil
  then show ?case by simp
next
  case (Cons c cs)
  from Cons.prems obtain v where v: "digit_value c = Some v" "v < 16"
    by (auto simp: is_hex_digit_def split: option.splits)
  from Cons.prems have "list_all is_hex_digit cs" by simp
  from Cons.IH[OF this, of "16 * a + v"]
  have "foldl (\<lambda>acc c. case digit_value c of None \<Rightarrow> acc | Some v \<Rightarrow> 16 * acc + v) (16 * a + v) cs
          < 16 ^ length cs * (16 * a + v + 1)" .
  also have "\<dots> \<le> 16 ^ length cs * (16 * (a + 1))"
  proof (rule mult_le_mono2)
    show "16 * a + v + 1 \<le> 16 * (a + 1)" using v(2) by simp
  qed
  finally show ?case using v(1) by (simp add: algebra_simps)
qed

lemma digits_value_bound: "list_all is_hex_digit h \<Longrightarrow> digits_value h < 16 ^ length h"
  using digits_value_bound_aux[of h 0] by (simp add: digits_value_def)

lemma no_double_underscore: "CHR ''_'' \<notin> set h \<Longrightarrow> \<not> double_underscore h"
  by (induction h rule: double_underscore.induct) auto

lemma py_int16_hex:
  assumes "list_all is_hex_digit h" and "h \<noteq> []"
  shows "py_int16 h = Some (int (digits_value h))"
proof -
  from assms obtain c cs where h: "h = c # cs" by (cases h) auto
  with assms(1) have c: "is_hex_digit c" by simp
  have s0: "dropWhile is_int_space h = h"
    using h hex_not_special(9)[OF c] by simp
  have allr: "\<forall>x \<in> set h. is_hex_digit x \<or> x = CHR ''_''"
    using assms(1) by (auto simp: list_all_iff)
  have run: "takeWhile (\<lambda>c. is_hex_digit c \<or> c = CHR ''_'') h = h"
    using allr by simp
  have rest: "dropWhile (\<lambda>c. is_hex_digit c \<or> c = CHR ''_'') h = []"
    using allr by simp
  have nu: "CHR ''_'' \<notin> set h"
    using assms(1) hex_not_special(3) by (auto simp: list_all_iff)
  have lastne: "last h \<noteq> CHR ''_''" using nu assms(2) last_in_set by metis
  have hdne: "hd h \<noteq> CHR ''_''" using nu assms(2) hd_in_set by metis
  have s2: "int_prefix16 h = h"
  proof (cases cs)
    case Nil
    with h show ?thesis by (simp add: int_prefix16_def)
  next
    case (Cons b bs)
    with h assms(1) have "is_hex_digit b" by simp
    from hex_not_special(4,5)[OF this] h Cons show ?thesis by (simp add: int_prefix16_def)
  qed
  have s1: "int_sign h = (False, h)"
    using h hex_not_special(1,2)[OF c] by (simp add: int_sign_def)
  show ?thesis
    unfolding py_int16_def
    by (simp add: s0 s1 s2 run rest assms(2) lastne hdne no_double_underscore[OF nu] Let_def)
qed

lemma filter_hex_id:
  "list_all is_hex_digit s \<Longrightarrow> filter (\<lambda>c. c \<noteq> CHR ''-'') s = s"
  using hex_not_special(1) by (induction s) auto

lemma hex_groups_props:
  "hex_groups ns s \<Longrightarrow> \<forall>n \<in> set ns. 0 < n \<Longrightarrow>
   s \<noteq> [] \<and> is_hex_digit (hd s) \<and> is_hex_digit (last s)
   \<and> (\<forall>c \<in> set s. is_hex_digit c \<or> c = CHR ''-'')
   \<and> list_all is_hex_digit (filter (\<lambda>c. c \<noteq> CHR ''-'') s)
   \<and> length (filter (\<lambda>c. c \<noteq> CHR ''-'') s) = sum_list ns"
proof (induction ns s rule: hex_groups.induct)
  case (1 s)
  then show ?case by simp
next
  case (2 n s)
  then have len: "length s = n" and hex: "list_all is_hex_digit s" and pos: "0 < n" by auto
  from len pos have ne: "s \<noteq> []" by auto
  from hex ne have "is_hex_digit (hd s)" "is_hex_digit (last s)"
    by (auto simp: list_all_iff)
  with ne hex len show ?case
    by (auto simp: filter_hex_id list_all_iff)
next
  case (3 n m ms s)
  from "3.prems"(1) obtain rest where
    le: "n \<le> length s" and hex: "list_all is_hex_digit (take n s)"
    and dr: "drop n s = CHR ''-'' # rest" and gr: "hex_groups (m # ms) rest"
    by (auto split: list.splits)
  from "3.prems"(2) have pos: "0 < n" and posr: "\<forall>k \<in> set (m # ms). 0 < k" by auto
  from "3.IH"[OF dr gr posr] have ih:
    "rest \<noteq> []" "is_hex_digit (last rest)"
    "\<forall>c \<in> set rest. is_hex_digit c \<or> c = CHR ''-''"
    "list_all is_hex_digit (filter (\<lambda>c. c \<noteq> CHR ''-'') rest)"
    "length (filter (\<lambda>c. c \<noteq> CHR ''-'') rest) = sum_list (m # ms)"
    by auto
  have s: "s = take n s @ CHR ''-'' # rest"
    using dr append_take_drop_id[of n s] by simp
  have tne: "take n s \<noteq> []" using le pos by auto
  have tl: "length (take n s) = n" using le by simp
  have hd: "is_hex_digit (hd s)"
  proof -
    have "hd s = hd (take n s)" using tne by (metis hd_append2 s)
    moreover have "hd (take n s) \<in> set (take n s)" using tne by (rule hd_in_set)
    ultimately show ?thesis using hex by (auto simp: list_all_iff)
  qed
  have la: "is_hex_digit (last s)"
  proof -
    have "last s = last rest" using ih(1) by (subst s) simp
    with ih(2) show ?thesis by simp
  qed
  have mem: "\<forall>c \<in> set s. is_hex_digit c \<or> c = CHR ''-''"
  proof
    fix c assume "c \<in> set s"
    then have "c \<in> set (take n s) \<or> c = CHR ''-'' \<or> c \<in> set rest"
      by (subst (asm) s) auto
    with hex ih(3) show "is_hex_digit c \<or> c = CHR ''-''" by (auto simp: list_all_iff)
  qed
  have fl: "filter (\<lambda>c. c \<noteq> CHR ''-'') s = take n s @ filter (\<lambda>c. c \<noteq> CHR ''-'') rest"
    by (subst s) (simp add: filter_hex_id[OF hex])
  have a: "list_all is_hex_digit (filter (\<lambda>c. c \<noteq> CHR ''-'') s)"
    using hex ih(4) by (simp add: fl)
  have b: "length (filter (\<lambda>c. c \<noteq> CHR ''-'') s) = sum_list (n # m # ms)"
    using ih(5) tl by (simp add: fl)
  from s hd la mem a b show ?case by auto
qed

lemma canonical_uuid_parses:
  assumes "spec_canonical_uuid s"
  shows "uuid_UUID s = Some (int (digits_value (filter (\<lambda>c. c \<noteq> CHR ''-'') s)))"
proof -
  let ?h = "filter (\<lambda>c. c \<noteq> CHR ''-'') s"
  from assms have g: "hex_groups [8, 4, 4, 4, 12] s" by (simp add: spec_canonical_uuid_def)
  have "\<forall>n \<in> set [8, 4, 4, 4, 12::nat]. 0 < n" by simp
  from hex_groups_props[OF g this] have p:
    "s \<noteq> []" "is_hex_digit (hd s)" "is_hex_digit (last s)"
    "\<forall>c \<in> set s. is_hex_digit c \<or> c = CHR ''-''"
    "list_all is_hex_digit ?h" "length ?h = 32"
    by auto
  have nou: "CHR ''u'' \<notin> set s" using p(4) hex_not_special(6) by auto
  have r1: "str_remove ''urn:'' s = s" using nou by (simp add: str_remove_absent)
  have r2: "str_remove ''uuid:'' s = s" using nou by (simp add: str_remove_absent)
  have r3: "str_strip ''{}'' s = s"
    using p(1) hex_not_special(7,8)[OF p(2)] hex_not_special(7,8)[OF p(3)]
    by (simp add: str_strip_id)
  have r4: "str_remove ''-'' s = ?h" by (rule str_remove_hyphen)
  have hne: "?h \<noteq> []" using p(6) by auto
  have pi: "py_int16 ?h = Some (int (digits_value ?h))"
    using p(5) hne by (rule py_int16_hex)
  have "digits_value ?h < 16 ^ length ?h" using p(5) by (rule digits_value_bound)
  then have d32: "digits_value ?h < 16 ^ 32" by (simp only: p(6))
  show ?thesis
    unfolding uuid_UUID_def using d32 by (simp add: r1 r2 r3 r4 p(6) pi Let_def)
qed

lemma canonical_uuid_valid: "spec_canonical_uuid s \<Longrightarrow> is_valid_session_id s"
proof -
  assume c: "spec_canonical_uuid s"
  then have "s \<noteq> []" by (auto simp: spec_canonical_uuid_def)
  with canonical_uuid_parses[OF c] show ?thesis by (simp add: is_valid_session_id_def)
qed

lemma uuid_UUID_empty: "uuid_UUID [] = None"
  by (simp add: uuid_UUID_def str_remove.simps str_strip_def)

lemma is_valid_session_id_iff:
  "is_valid_session_id s \<longleftrightarrow> uuid_UUID s \<noteq> None \<or> spec_custom_id s"
  by (auto simp: is_valid_session_id_def spec_custom_id_def allowed_chars_def uuid_UUID_empty)

lemma str_remove_set: "set s \<subseteq> set (str_remove old s) \<union> set old"
proof (induction old s rule: str_remove.induct)
  case (1 old s)
  show ?case
  proof (cases "s = []")
    case True
    then show ?thesis by simp
  next
    case ne: False
    show ?thesis
    proof (cases "old \<noteq> [] \<and> prefix old s")
      case True
      then obtain r where r: "s = old @ r" by (auto simp: prefix_def)
      then have d: "drop (length old) s = r" by simp
      from "1.IH"(1)[OF ne True] d have "set r \<subseteq> set (str_remove old r) \<union> set old" by simp
      moreover have "str_remove old s = str_remove old r"
        by (subst str_remove.simps) (use ne True d in auto)
      ultimately show ?thesis using r by auto
    next
      case False
      from "1.IH"(2)[OF ne False] have "set (tl s) \<subseteq> set (str_remove old (tl s)) \<union> set old" .
      moreover have "str_remove old s = hd s # str_remove old (tl s)"
        by (subst str_remove.simps) (use ne False in auto)
      moreover have "set s = insert (hd s) (set (tl s))" using ne by (cases s) auto
      ultimately show ?thesis by auto
    qed
  qed
qed

lemma dropWhile_keeps: "x \<in> set xs \<Longrightarrow> \<not> P x \<Longrightarrow> x \<in> set (dropWhile P xs)"
  by (induction xs) auto

lemma str_strip_set: "set s \<subseteq> set (str_strip chars s) \<union> set chars"
proof
  fix x assume x: "x \<in> set s"
  show "x \<in> set (str_strip chars s) \<union> set chars"
  proof (cases "x \<in> set chars")
    case True
    then show ?thesis by simp
  next
    case False
    from dropWhile_keeps[OF x, of "\<lambda>c. c \<in> set chars"] False
    have "x \<in> set (rev (dropWhile (\<lambda>c. c \<in> set chars) s))" by simp
    from dropWhile_keeps[OF this, of "\<lambda>c. c \<in> set chars"] False
    show ?thesis by (simp add: str_strip_def)
  qed
qed

lemma span_chars:
  "set xs \<subseteq> {c. P c} \<union> set (dropWhile P xs)"
  by (induction xs) auto

lemma py_int16_chars:
  assumes "py_int16 h = Some n"
  shows "set h \<subseteq> int_chars"
proof -
  define s0 where "s0 = dropWhile is_int_space h"
  obtain neg s1 where sg: "int_sign s0 = (neg, s1)" by (cases "int_sign s0")
  define s2 where "s2 = int_prefix16 s1"
  define rest where "rest = dropWhile (\<lambda>c. is_hex_digit c \<or> c = CHR ''_'') s2"
  have restsp: "list_all is_int_space rest"
    using assms sg unfolding py_int16_def rest_def s2_def s0_def
    by (auto simp: Let_def split: if_splits)
  have zero: "is_hex_digit (CHR ''0'')" by (simp add: is_hex_digit_def digit_value_def)
  have a: "set h \<subseteq> {c. is_int_space c} \<union> set s0"
    unfolding s0_def by (rule span_chars)
  have b: "set s0 \<subseteq> set ''+-'' \<union> set s1"
    using sg by (auto simp: int_sign_def split: list.splits if_splits)
  have c: "set s1 \<subseteq> {c. is_hex_digit c} \<union> set ''xX_'' \<union> set s2"
    unfolding s2_def int_prefix16_def using zero by (auto split: list.splits if_splits)
  have d: "set s2 \<subseteq> {c. is_hex_digit c \<or> c = CHR ''_''} \<union> set rest"
    unfolding rest_def by (rule span_chars)
  have e: "set rest \<subseteq> {c. is_int_space c}" using restsp by (auto simp: list_all_iff)
  show ?thesis
  proof
    fix x assume x: "x \<in> set h"
    show "x \<in> int_chars"
    proof (cases "is_int_space x \<or> is_hex_digit x \<or> x \<in> set ''+-_xX''")
      case True
      then show ?thesis by (simp add: int_chars_def)
    next
      case False
      with x a have "x \<in> set s0" by blast
      with False b have "x \<in> set s1" by auto
      with False c have "x \<in> set s2" by auto
      with False d have "x \<in> set rest" by auto
      with False e show ?thesis by auto
    qed
  qed
qed

lemma uuid_UUID_chars:
  assumes "uuid_UUID s \<noteq> None"
  shows "set s \<subseteq> int_chars \<union> set ''urn:uuid:{}-''"
proof -
  let ?a = "str_remove ''urn:'' s"
  let ?b = "str_remove ''uuid:'' ?a"
  let ?c = "str_strip ''{}'' ?b"
  let ?d = "str_remove ''-'' ?c"
  from assms obtain n where "py_int16 ?d = Some n"
    by (auto simp: uuid_UUID_def Let_def split: if_splits option.splits)
  then have d: "set ?d \<subseteq> int_chars" by (rule py_int16_chars)
  have "set ?c \<subseteq> set ?d \<union> set ''-''" by (rule str_remove_set)
  moreover have "set ?b \<subseteq> set ?c \<union> set ''{}''" by (rule str_strip_set)
  moreover have "set ?a \<subseteq> set ?b \<union> set ''uuid:''" by (rule str_remove_set)
  moreover have "set s \<subseteq> set ?a \<union> set ''urn:''" by (rule str_remove_set)
  ultimately have all: "set s \<subseteq> set ?d \<union> (set ''-'' \<union> set ''{}'' \<union> set ''uuid:'' \<union> set ''urn:'')"
    by blast
  have lit: "set ''-'' \<union> set ''{}'' \<union> set ''uuid:'' \<union> set ''urn:'' \<subseteq> set ''urn:uuid:{}-''"
    by simp
  from all d lit show ?thesis by blast
qed

lemma slash_dot_not_int_chars: "CHR ''/'' \<notin> int_chars" "CHR ''.'' \<notin> int_chars"
  by (simp_all add: int_chars_def is_int_space_def is_hex_digit_def digit_value_def)

lemma valid_id_path_safe:
  assumes "is_valid_session_id s"
  shows "CHR ''/'' \<notin> set s \<and> CHR ''.'' \<notin> set s"
proof (cases "uuid_UUID s \<noteq> None")
  case True
  have lit: "CHR ''/'' \<notin> set ''urn:uuid:{}-''" "CHR ''.'' \<notin> set ''urn:uuid:{}-''"
    by simp_all
  from uuid_UUID_chars[OF True] slash_dot_not_int_chars lit show ?thesis by blast
next
  case False
  with assms have "list_all (\<lambda>c. c \<in> allowed_chars) s"
    by (auto simp: is_valid_session_id_def split: if_splits)
  moreover have "CHR ''/'' \<notin> allowed_chars" "CHR ''.'' \<notin> allowed_chars"
    by (simp_all add: allowed_chars_def)
  ultimately show ?thesis by (auto simp: list_all_iff)
qed

lemma brace_uuid_steps:
  "str_remove ''urn:'' ''{12345678-1234-5678-1234-567812345678}''
     = ''{12345678-1234-5678-1234-567812345678}''"
  "str_remove ''uuid:'' ''{12345678-1234-5678-1234-567812345678}''
     = ''{12345678-1234-5678-1234-567812345678}''"
  "str_strip ''{}'' ''{12345678-1234-5678-1234-567812345678}''
     = ''12345678-1234-5678-1234-567812345678''"
  "str_remove ''-'' ''12345678-1234-5678-1234-567812345678''
     = ''12345678123456781234567812345678''"
  by (simp_all add: str_remove.simps str_strip_def)

lemma brace_uuid_int:
  "py_int16 ''12345678123456781234567812345678'' = Some 24197857161011715162171839636988778104"
  by (simp add: py_int16_def int_sign_def int_prefix16_def is_int_space_def is_hex_digit_def
      digit_value_def digits_value_def)

lemma brace_uuid_parses:
  "uuid_UUID ''{12345678-1234-5678-1234-567812345678}''
     = Some 24197857161011715162171839636988778104"
  by (simp add: uuid_UUID_def brace_uuid_steps brace_uuid_int)

lemma brace_uuid_not_canonical:
  "\<not> spec_canonical_uuid ''{12345678-1234-5678-1234-567812345678}''"
  by (simp add: spec_canonical_uuid_def is_hex_digit_def digit_value_def)

lemma brace_uuid_not_custom:
  "\<not> spec_custom_id ''{12345678-1234-5678-1234-567812345678}''"
  by (simp add: spec_custom_id_def)

lemma plain_uuid_canonical:
  "spec_canonical_uuid ''12345678-1234-5678-1234-567812345678''"
  by (simp add: spec_canonical_uuid_def is_hex_digit_def digit_value_def)

subsection \<open>The JSON codec on the values it gives back unchanged\<close>

lemma update_fresh: "k \<notin> fst ` set acc \<Longrightarrow> AList.update k v acc = acc @ [(k, v)]"
  by (induction acc) auto

lemma dict_fold_distinct:
  "distinct (map fst (acc @ kvs)) \<Longrightarrow>
   foldl (\<lambda>d kv. AList.update (fst kv) (snd kv) d) acc kvs = acc @ kvs"
proof (induction kvs arbitrary: acc)
  case Nil
  then show ?case by simp
next
  case (Cons kv kvs)
  from Cons.prems have fresh: "fst kv \<notin> fst ` set acc" by auto
  have step: "AList.update (fst kv) (snd kv) acc = acc @ [kv]"
    using update_fresh[OF fresh, of "snd kv"] by simp
  from Cons.prems have "distinct (map fst ((acc @ [kv]) @ kvs))" by simp
  from Cons.IH[OF this] show ?case by (simp add: step)
qed

lemma dict_of_distinct: "distinct (map fst kvs) \<Longrightarrow> dict_of kvs = kvs"
  using dict_fold_distinct[of "[]" kvs] by (simp add: dict_of_def)

lemma py_of_json_items_keys: "fst ` set (py_of_json_items ms) = PStr ` fst ` set ms"
  by (induction ms) auto

lemma json_native_roundtrip:
  "(json_native v \<longrightarrow>
      (\<exists>j. json_dump v = Inr j \<and> json_load j = j \<and> py_of_json j = v))"
  "(json_native_list xs \<longrightarrow>
      (\<exists>js. json_dump_list xs = Inr js \<and> json_load_list js = js \<and> py_of_json_list js = xs))"
  "(json_native_items kvs \<longrightarrow>
      (\<exists>ms. json_dump_items kvs = Inr ms \<and> json_load_items ms = ms
            \<and> py_of_json_items ms = kvs \<and> distinct (map fst ms)))"
proof (induction v and xs and kvs rule: json_native_json_native_list_json_native_items.induct)
  case (8 kvs)
  show ?case
  proof
    assume "json_native (PDict kvs)"
    then have "json_native_items kvs" by simp
    with 8 obtain ms where ms: "json_dump_items kvs = Inr ms" "json_load_items ms = ms"
      "py_of_json_items ms = kvs" "distinct (map fst ms)" by blast
    have "json_load (JObj ms) = JObj ms" using ms(2,4) by (simp add: dict_of_distinct)
    with ms show "\<exists>j. json_dump (PDict kvs) = Inr j \<and> json_load j = j \<and> py_of_json j = PDict kvs"
      by simp
  qed
next
  case (13 kv kvs)
  show ?case
  proof
    assume n: "json_native_items (kv # kvs)"
    then obtain s where k: "fst kv = PStr s"
      by (auto simp: key_text_def split: pyval.splits)
    from n have fresh: "fst kv \<notin> fst ` set kvs" and nv: "json_native (snd kv)"
      and nr: "json_native_items kvs" by auto
    from 13(1) nv obtain j where j: "json_dump (snd kv) = Inr j" "json_load j = j"
      "py_of_json j = snd kv" by blast
    from 13(2) nr obtain ms where ms: "json_dump_items kvs = Inr ms" "json_load_items ms = ms"
      "py_of_json_items ms = kvs" "distinct (map fst ms)" by blast
    have "PStr s \<notin> PStr ` fst ` set ms"
      using fresh k py_of_json_items_keys[of ms] ms(3) by simp
    then have sfresh: "s \<notin> fst ` set ms" by blast
    have dk: "dump_key (fst kv) = Inr s" by (simp add: k dump_key_def)
    have kv: "(PStr s, snd kv) = kv" using k by (cases kv) simp
    show "\<exists>ms. json_dump_items (kv # kvs) = Inr ms \<and> json_load_items ms = ms
            \<and> py_of_json_items ms = kv # kvs \<and> distinct (map fst ms)"
      using dk j ms sfresh kv by (intro exI[of _ "(s, j) # ms"]) simp
  qed
qed auto

subsection \<open>Creating a session\<close>

lemma create_session_stores:
  assumes "is_valid_session_id final"
    and "final = (case sid_opt of None \<Rightarrow> gen | Some sid \<Rightarrow> if sid = [] then gen else sid)"
    and "\<forall>f. map_of st final = Some f \<longrightarrow> writable f"
    and "json_dump_items (case ud of None \<Rightarrow> [] | Some d \<Rightarrow> d) = Inr members"
  shows "\<exists>st' f'. create_session now gen tok url pdom email uid cid pid ex ud sid_opt st
                    = (Inr final, st')
           \<and> map_of st' final = Some f'
           \<and> content f' = Parsed \<lparr>
                 session_uuid = final, session_id = final, token = tok, api_url = url,
                 portal_domain = pdom, user_email = email, app_user_id = uid,
                 company_id = cid, profile_id = pid, exp_time = ex, exp_null = (ex = None),
                 created_at = py_int now, last_accessed = py_int now,
                 user_data = dict_of (json_load_items members) \<rparr>"
proof -
  have sel: "(case sid_opt of
              None \<Rightarrow> Inr gen
            | Some sid \<Rightarrow>
                if sid = [] then Inr gen
                else if \<not> is_valid_session_id sid then Inl InvalidIdentifier
                else Inr sid) = (Inr final :: error + string)"
    using assms(1,2) by (auto split: option.splits)
  have path: "get_session_path final = Inr final"
    using assms(1) by (rule get_session_path_valid)
  have w: "(case map_of st final of None \<Rightarrow> True | Some f \<Rightarrow> writable f)"
    using assms(3) by (simp split: option.splits)
  show ?thesis
    unfolding create_session_def
    by (simp add: sel path w assms(4) AList.update_conv' Let_def)
qed

lemma create_session_unencodable:
  assumes "is_valid_session_id sid" and "map_of st sid = None"
    and "json_dump_items d = Inl e"
  shows "create_session now gen tok url pdom email uid cid pid ex (Some d) (Some sid) st
           = (Inl e, AList.update sid \<lparr>content = Unparsable, writable = True\<rparr> st)"
  using assms valid_nonempty[OF assms(1)]
  unfolding create_session_def
  by (simp add: get_session_path_valid Let_def)

subsection \<open>An accepted id with a control character\<close>

text \<open>A line feed followed by 31 hexadecimal digits: \<^verbatim>\<open>int\<close> skips the white space, so
  \<^verbatim>\<open>uuid.UUID\<close> parses the text and the validator accepts it.\<close>

lemma newline_id_int:
  "py_int16 (CHR 0x0A # ''1234567812345678123456781234567'') = Some 1512366072563232197635739977311798631"
  by (simp add: py_int16_def int_sign_def int_prefix16_def is_int_space_def is_hex_digit_def
      digit_value_def digits_value_def)

lemma newline_id_accepted:
  "is_valid_session_id (CHR 0x0A # ''1234567812345678123456781234567'')"
  by (simp add: is_valid_session_id_def uuid_UUID_def str_remove.simps str_strip_def newline_id_int)

section \<open>The claims\<close>

text \<open>
  C1 (as the code has it). An id the validator rejects, which every id with a slash or a
  dot in it is, never reaches the directory, and the three operations differ in how they
  report it: \<^verbatim>\<open>create_session\<close>, given a non-empty rejected id, raises
  \<open>InvalidIdentifier\<close>; \<^verbatim>\<open>load_session\<close> returns \<^verbatim>\<open>None\<close>, the same value as for a missing
  session, and \<^verbatim>\<open>delete_session\<close> returns \<^verbatim>\<open>False\<close>. The directory is left as it was by
  all three.
\<close>

theorem rejected_id_outcomes:
  assumes "\<not> is_valid_session_id sid \<or> CHR ''/'' \<in> set sid \<or> CHR ''.'' \<in> set sid"
  shows "\<not> is_valid_session_id sid
         \<and> (sid \<noteq> [] \<longrightarrow>
            create_session now gen tok url pdom email uid cid pid ex ud (Some sid) st
              = (Inl InvalidIdentifier, st))
         \<and> load_session now sid st = (Inr None, st)
         \<and> delete_session sid st = (Inr False, st)"
proof -
  have inv: "\<not> is_valid_session_id sid" using assms valid_id_path_safe by blast
  then show ?thesis
    by (simp add: create_invalid load_session_invalid delete_session_invalid)
qed

theorem rejected_id_outcomes_witness:
  "CHR ''/'' \<in> set ''../x''
   \<and> \<not> is_valid_session_id ''../x''
   \<and> create_session 1000 ''g'' ''tok'' ''u'' ''p'' ''e'' ''1'' ''2'' ''3'' None None (Some ''../x'') []
       = (Inl InvalidIdentifier, [])
   \<and> load_session 1000 ''../x'' [] = (Inr None, [])
   \<and> delete_session ''../x'' [] = (Inr False, [])"
proof -
  have h: "\<not> is_valid_session_id ''../x'' \<or> CHR ''/'' \<in> set ''../x'' \<or> CHR ''.'' \<in> set ''../x''"
    by simp
  have ne: "''../x'' \<noteq> []" by simp
  from rejected_id_outcomes [OF h, of 1000 "''g''" "''tok''" "''u''" "''p''" "''e''"
      "''1''" "''2''" "''3''" None None "[]"] ne
  show ?thesis by simp
qed

text \<open>
  C1 as stated fails: for the rejected id \<^verbatim>\<open>a/b\<close>, \<^verbatim>\<open>load_session\<close> does not fail with
  \<open>InvalidIdentifier\<close>; it returns \<^verbatim>\<open>None\<close>.
\<close>

theorem rejected_id_load_counterexample:
  "\<not> is_valid_session_id ''a/b'' \<and> fst (load_session 1000 ''a/b'' []) = Inr None
   \<and> fst (load_session 1000 ''a/b'' []) \<noteq> Inl InvalidIdentifier"
  by (simp add: slash_id_rejected load_session_invalid)

text \<open>
  C2 (as the code has it). For a record that exists and does not parse, \<^verbatim>\<open>load_session\<close>
  returns \<^verbatim>\<open>None\<close>, as for a missing session, and leaves the directory as it was: the
  record is kept.
\<close>

theorem unparsable_record_kept:
  assumes "map_of st sid = Some f" and "content f = Unparsable"
  shows "load_session now sid st = (Inr None, st)"
  using assms by (rule load_session_unparsable)

theorem unparsable_record_kept_witness:
  "map_of [(''abc'', \<lparr>content = Unparsable, writable = True\<rparr>)] ''abc''
     = Some \<lparr>content = Unparsable, writable = True\<rparr>
   \<and> content \<lparr>content = Unparsable, writable = True\<rparr> = Unparsable
   \<and> load_session 1000 ''abc'' [(''abc'', \<lparr>content = Unparsable, writable = True\<rparr>)]
       = (Inr None, [(''abc'', \<lparr>content = Unparsable, writable = True\<rparr>)])"
  using unparsable_record_kept [of "[(''abc'', \<lparr>content = Unparsable, writable = True\<rparr>)]"
      "''abc''" "\<lparr>content = Unparsable, writable = True\<rparr>" 1000]
  by simp

text \<open>
  C2 as stated fails: for the accepted id \<^verbatim>\<open>abc\<close> and a record that does not parse,
  \<^verbatim>\<open>load_session\<close> reports no failure; it returns \<^verbatim>\<open>None\<close>.
\<close>

theorem unparsable_record_counterexample:
  "is_valid_session_id ''abc''
   \<and> fst (load_session 1000 ''abc'' [(''abc'', \<lparr>content = Unparsable, writable = True\<rparr>)])
       = Inr None
   \<and> fst (load_session 1000 ''abc'' [(''abc'', \<lparr>content = Unparsable, writable = True\<rparr>)])
       \<noteq> Inl IOFailure"
  by (simp add: abc_valid load_session_unparsable)

text \<open>
  C3 (as the code has it). The validator accepts a text exactly when \<^verbatim>\<open>uuid.UUID\<close>
  parses it or it is of form (b). \<^verbatim>\<open>uuid.UUID\<close> parses every canonical UUID text, so
  forms (a) and (b) are accepted; it parses other texts as well (for one, a UUID in
  braces), so the accepted ids are more than (a) and (b). No accepted id has a slash or
  a dot in it.
\<close>

theorem validator_accepts:
  "(is_valid_session_id s \<longleftrightarrow> uuid_UUID s \<noteq> None \<or> spec_custom_id s)
   \<and> (spec_canonical_uuid s \<longrightarrow> uuid_UUID s \<noteq> None)
   \<and> (spec_canonical_uuid s \<or> spec_custom_id s \<longrightarrow> is_valid_session_id s)
   \<and> (is_valid_session_id s \<longrightarrow> CHR ''/'' \<notin> set s \<and> CHR ''.'' \<notin> set s)"
proof -
  have a: "is_valid_session_id s \<longleftrightarrow> uuid_UUID s \<noteq> None \<or> spec_custom_id s"
    by (rule is_valid_session_id_iff)
  have b: "spec_canonical_uuid s \<longrightarrow> uuid_UUID s \<noteq> None"
    by (simp add: canonical_uuid_parses)
  have c: "spec_canonical_uuid s \<or> spec_custom_id s \<longrightarrow> is_valid_session_id s"
    using a b by blast
  have d: "is_valid_session_id s \<longrightarrow> CHR ''/'' \<notin> set s \<and> CHR ''.'' \<notin> set s"
    using valid_id_path_safe by blast
  from a b c d show ?thesis by blast
qed

theorem validator_accepts_witness:
  "spec_canonical_uuid ''12345678-1234-5678-1234-567812345678''
   \<and> uuid_UUID ''12345678-1234-5678-1234-567812345678'' \<noteq> None
   \<and> is_valid_session_id ''12345678-1234-5678-1234-567812345678''
   \<and> CHR ''/'' \<notin> set ''12345678-1234-5678-1234-567812345678''"
  using validator_accepts [of "''12345678-1234-5678-1234-567812345678''"] plain_uuid_canonical
  by blast

text \<open>
  C3 as stated fails: a UUID written in braces is accepted, and it is neither a
  canonical UUID text nor of form (b).
\<close>

theorem validator_braces_counterexample:
  "is_valid_session_id ''{12345678-1234-5678-1234-567812345678}''
   \<and> \<not> spec_canonical_uuid ''{12345678-1234-5678-1234-567812345678}''
   \<and> \<not> spec_custom_id ''{12345678-1234-5678-1234-567812345678}''"
  by (simp add: is_valid_session_id_def brace_uuid_parses brace_uuid_not_canonical
      brace_uuid_not_custom)

text \<open>
  C4 (as the code has it). For a session whose \<open>exp\<close> is present and not zero, the test
  holds exactly when \<open>now \<ge> exp - 60\<close>, the boundary included: with \<open>exp = now + 59\<close> or
  \<open>exp = now + 60\<close> the session is expired, with \<open>exp = now + 61\<close> it is not. An expired
  session stored in the directory is absent from \<^verbatim>\<open>load_session\<close> and from
  \<^verbatim>\<open>list_sessions\<close>; one that is not expired, under an accepted id, is returned by
  \<^verbatim>\<open>load_session\<close>, and listed when the platform can format its two times.
\<close>

theorem expiration_boundary:
  assumes "exp_time s = Some e" and "e \<noteq> 0"
  shows "(is_expired now s \<longleftrightarrow> of_int e - 60 \<le> now)
         \<and> (of_int e = now + 59 \<longrightarrow> is_expired now s)
         \<and> (of_int e = now + 60 \<longrightarrow> is_expired now s)
         \<and> (of_int e = now + 61 \<longrightarrow> \<not> is_expired now s)
         \<and> (map_of st sid = Some f \<and> content f = Parsed s \<longrightarrow>
              (if is_expired now s
               then fst (load_session now sid st) = Inr None
                    \<and> sid \<notin> sum_session_id ` set (fst (list_sessions fmt now st))
               else (is_valid_session_id sid \<longrightarrow>
                       fst (load_session now sid st) = Inr (Some s)
                       \<and> (fmt (created_at s) \<noteq> None \<and> fmt e \<noteq> None \<longrightarrow>
                            sid \<in> sum_session_id ` set (fst (list_sessions fmt now st))))))"
proof -
  have iff: "is_expired now s \<longleftrightarrow> of_int e - 60 \<le> now"
    using assms by (rule is_expired_iff)
  have b59: "of_int e = now + 59 \<longrightarrow> is_expired now s" using iff by simp
  have b60: "of_int e = now + 60 \<longrightarrow> is_expired now s" using iff by simp
  have b61: "of_int e = now + 61 \<longrightarrow> \<not> is_expired now s" using iff by simp
  have store: "map_of st sid = Some f \<and> content f = Parsed s \<longrightarrow>
              (if is_expired now s
               then fst (load_session now sid st) = Inr None
                    \<and> sid \<notin> sum_session_id ` set (fst (list_sessions fmt now st))
               else (is_valid_session_id sid \<longrightarrow>
                       fst (load_session now sid st) = Inr (Some s)
                       \<and> (fmt (created_at s) \<noteq> None \<and> fmt e \<noteq> None \<longrightarrow>
                            sid \<in> sum_session_id ` set (fst (list_sessions fmt now st)))))"
  proof (intro impI, elim conjE)
    assume f: "map_of st sid = Some f" "content f = Parsed s"
    show "if is_expired now s
          then fst (load_session now sid st) = Inr None
               \<and> sid \<notin> sum_session_id ` set (fst (list_sessions fmt now st))
          else (is_valid_session_id sid \<longrightarrow>
                  fst (load_session now sid st) = Inr (Some s)
                  \<and> (fmt (created_at s) \<noteq> None \<and> fmt e \<noteq> None \<longrightarrow>
                       sid \<in> sum_session_id ` set (fst (list_sessions fmt now st))))"
    proof (cases "is_expired now s")
      case True
      then have dead: "\<not> live now sid st" using f by (simp add: live_def)
      from load_dead_result[OF dead] list_sessions_absent[OF dead] True
      show ?thesis by simp
    next
      case False
      have "is_valid_session_id sid \<longrightarrow>
                  fst (load_session now sid st) = Inr (Some s)
                  \<and> (fmt (created_at s) \<noteq> None \<and> fmt e \<noteq> None \<longrightarrow>
                       sid \<in> sum_session_id ` set (fst (list_sessions fmt now st)))"
      proof (intro impI conjI)
        assume v: "is_valid_session_id sid"
        from load_session_live[OF v f False]
        show "fst (load_session now sid st) = Inr (Some s)" by simp
        assume "fmt (created_at s) \<noteq> None \<and> fmt e \<noteq> None"
        then have "listable fmt now sid st"
          using v f False assms(1) by (simp add: listable_def shown_expiry_def)
        then show "sid \<in> sum_session_id ` set (fst (list_sessions fmt now st))"
          by (rule list_sessions_present)
      qed
      with False show ?thesis by simp
    qed
  qed
  from iff b59 b60 b61 store show ?thesis by blast
qed

theorem expiration_boundary_witness:
  "exp_time (sample_session (Some 1059)) = Some 1059 \<and> (1059::int) \<noteq> 0
   \<and> is_expired 1000 (sample_session (Some 1059))
   \<and> fst (load_session 1000 ''abc'' [(''abc'', sample_file (Some 1059) True)]) = Inr None
   \<and> ''abc'' \<notin> sum_session_id `
        set (fst (list_sessions (\<lambda>t. Some ''time'') 1000 [(''abc'', sample_file (Some 1059) True)]))"
proof -
  have h1: "exp_time (sample_session (Some 1059)) = Some 1059"
    by (simp add: sample_session_def)
  have h2: "(1059::int) \<noteq> 0" by simp
  have m: "map_of [(''abc'', sample_file (Some 1059) True)] ''abc''
             = Some (sample_file (Some 1059) True)
           \<and> content (sample_file (Some 1059) True) = Parsed (sample_session (Some 1059))"
    by (simp add: sample_file_def)
  note t = expiration_boundary [OF h1 h2, of 1000 "[(''abc'', sample_file (Some 1059) True)]"
      "''abc''" "sample_file (Some 1059) True" "\<lambda>t. Some ''time''"]
  from t have e: "is_expired 1000 (sample_session (Some 1059))" by simp
  from t m e h1 h2 show ?thesis by simp
qed

text \<open>
  C4 as stated fails where \<open>exp\<close> is zero: at time 1000 the claim's test \<open>now \<ge> exp - 60\<close>
  holds, and the session is not expired.
\<close>

theorem expiration_zero_counterexample:
  "exp_time (sample_session (Some 0)) = Some 0
   \<and> (of_int 0 - 60 \<le> (1000::real))
   \<and> \<not> is_expired 1000 (sample_session (Some 0))"
  by (simp add: sample_session_def is_expired_def)

text \<open>
  C5 (as the code has it). \<^verbatim>\<open>create_session\<close> with an accepted id (or with none, the
  generated one being a canonical UUID text), on a file that is new or may be written,
  and with a \<^verbatim>\<open>user_data\<close> made of values JSON gives back unchanged, returns the id; a
  \<^verbatim>\<open>load_session\<close> of that id at a time when the new session is not expired returns a
  session whose fields are the ones given: \<open>token\<close>, \<open>api_url\<close>, \<open>portal_domain\<close>,
  \<open>user_email\<close>, \<open>app_user_id\<close>, \<open>company_id\<close>, \<open>profile_id\<close>, \<open>exp\<close> and
  \<open>user_data\<close> (the empty dictionary when \<open>user_data\<close> was left out).
\<close>

theorem create_then_load_roundtrip:
  assumes "case sid_opt of
             None \<Rightarrow> spec_canonical_uuid gen
           | Some sid \<Rightarrow> if sid = [] then spec_canonical_uuid gen else is_valid_session_id sid"
    and "final = (case sid_opt of None \<Rightarrow> gen | Some sid \<Rightarrow> if sid = [] then gen else sid)"
    and "\<forall>f. map_of st final = Some f \<longrightarrow> writable f"
    and "case ex of None \<Rightarrow> True | Some e \<Rightarrow> e = 0 \<or> now' < of_int (e - 60)"
    and "json_native_items (case ud of None \<Rightarrow> [] | Some d \<Rightarrow> d)"
  shows "\<exists>st' s. create_session now gen tok url pdom email uid cid pid ex ud sid_opt st
                   = (Inr final, st')
           \<and> fst (load_session now' final st') = Inr (Some s)
           \<and> token s = tok \<and> api_url s = url \<and> portal_domain s = pdom
           \<and> user_email s = email \<and> app_user_id s = uid \<and> company_id s = cid
           \<and> profile_id s = pid \<and> exp_time s = ex
           \<and> py_of_json_items (user_data s) = (case ud of None \<Rightarrow> [] | Some d \<Rightarrow> d)
           \<and> session_id s = final \<and> session_uuid s = final"
proof -
  let ?given = "case ud of None \<Rightarrow> [] | Some d \<Rightarrow> d"
  from json_native_roundtrip(3)[of ?given] assms(5)
  obtain members where mem: "json_dump_items ?given = Inr members"
    "json_load_items members = members" "py_of_json_items members = ?given"
    "distinct (map fst members)" by blast
  have dm: "dict_of (json_load_items members) = members"
    using mem(2,4) by (simp add: dict_of_distinct)
  let ?sd = "\<lparr> session_uuid = final, session_id = final, token = tok, api_url = url,
               portal_domain = pdom, user_email = email, app_user_id = uid,
               company_id = cid, profile_id = pid, exp_time = ex, exp_null = (ex = None),
               created_at = py_int now, last_accessed = py_int now,
               user_data = dict_of (json_load_items members) \<rparr>"
  have valid: "is_valid_session_id final"
    using assms(1,2) by (auto split: option.splits if_splits intro: canonical_uuid_valid)
  from create_session_stores[OF valid assms(2,3) mem(1), of now tok url pdom email uid cid pid ex]
  obtain st' f' where cr:
    "create_session now gen tok url pdom email uid cid pid ex ud sid_opt st = (Inr final, st')"
    "map_of st' final = Some f'" "content f' = Parsed ?sd"
    by blast
  have ne: "\<not> is_expired now' ?sd"
    using assms(4) by (auto simp: is_expired_def split: option.splits)
  have ld: "fst (load_session now' final st') = Inr (Some ?sd)"
    using load_session_live[OF valid cr(2,3) ne] by simp
  show ?thesis
    by (rule exI[of _ st'], rule exI[of _ ?sd]) (simp add: cr(1) ld dm mem(3))
qed

theorem create_then_load_roundtrip_witness:
  "is_valid_session_id ''abc''
   \<and> json_native_items [(PStr ''k'', PList [PInt 1, PFloat (PyFloat ''1.5'')])]
   \<and> (\<exists>st' s. create_session 1000 ''g'' ''tok'' ''https://api'' ''portal'' ''u@x'' ''7'' ''3'' ''5''
                 (Some 5000) (Some [(PStr ''k'', PList [PInt 1, PFloat (PyFloat ''1.5'')])])
                 (Some ''abc'') [] = (Inr ''abc'', st')
          \<and> fst (load_session 1001 ''abc'' st') = Inr (Some s)
          \<and> token s = ''tok'' \<and> exp_time s = Some 5000
          \<and> py_of_json_items (user_data s)
                = [(PStr ''k'', PList [PInt 1, PFloat (PyFloat ''1.5'')])])"
proof -
  have h1: "case Some ''abc'' of
             None \<Rightarrow> spec_canonical_uuid ''g''
           | Some sid \<Rightarrow> if sid = [] then spec_canonical_uuid ''g'' else is_valid_session_id sid"
    using abc_valid by simp
  have h2: "''abc'' = (case Some ''abc'' of None \<Rightarrow> ''g'' | Some sid \<Rightarrow> if sid = [] then ''g'' else sid)"
    by simp
  have h3: "\<forall>f. map_of ([] :: store) ''abc'' = Some f \<longrightarrow> writable f" by simp
  have h4: "case Some (5000::int) of None \<Rightarrow> True | Some e \<Rightarrow> e = 0 \<or> (1001::real) < of_int (e - 60)"
    by simp
  have nat: "json_native_items [(PStr ''k'', PList [PInt 1, PFloat (PyFloat ''1.5'')])]"
    by (simp add: key_text_def)
  then have h5: "json_native_items (case Some [(PStr ''k'', PList [PInt 1, PFloat (PyFloat ''1.5'')])]
                   of None \<Rightarrow> [] | Some d \<Rightarrow> d)" by simp
  from create_then_load_roundtrip [OF h1 h2 h3 h4 h5, of 1000 "''tok''" "''https://api''" "''portal''"
      "''u@x''" "''7''" "''3''" "''5''"]
  obtain st' s where
    "create_session 1000 ''g'' ''tok'' ''https://api'' ''portal'' ''u@x'' ''7'' ''3'' ''5''
                 (Some 5000) (Some [(PStr ''k'', PList [PInt 1, PFloat (PyFloat ''1.5'')])])
                 (Some ''abc'') [] = (Inr ''abc'', st')"
    "fst (load_session 1001 ''abc'' st') = Inr (Some s)"
    "token s = ''tok''" "exp_time s = Some 5000"
    "py_of_json_items (user_data s) = [(PStr ''k'', PList [PInt 1, PFloat (PyFloat ''1.5'')])]"
    by auto
  with abc_valid nat show ?thesis by blast
qed

text \<open>
  C5 as stated fails for a \<^verbatim>\<open>user_data\<close> that holds a tuple: the session is created and
  loaded, and the loaded \<^verbatim>\<open>user_data\<close> holds a list where the tuple was.
\<close>

theorem roundtrip_tuple_counterexample:
  "fst (create_session 1000 ''g'' ''tok'' ''https://api'' ''portal'' ''u@x'' ''7'' ''3'' ''5''
          (Some 5000) (Some [(PStr ''k'', PTuple [PInt 1])]) (Some ''abc'') []) = Inr ''abc''
   \<and> fst (load_session 1001 ''abc''
          (snd (create_session 1000 ''g'' ''tok'' ''https://api'' ''portal'' ''u@x'' ''7'' ''3'' ''5''
                 (Some 5000) (Some [(PStr ''k'', PTuple [PInt 1])]) (Some ''abc'') [])))
       = Inr (Some ((sample_session (Some 5000))\<lparr>user_data := [(''k'', JArr [JInt 1])]\<rparr>))
   \<and> py_of_json_items [(''k'', JArr [JInt 1])] = [(PStr ''k'', PList [PInt 1])]
   \<and> [(PStr ''k'', PList [PInt 1])] \<noteq> [(PStr ''k'', PTuple [PInt 1])]"
proof -
  let ?st = "[(''abc'', \<lparr>content = Parsed ((sample_session (Some 5000))
                \<lparr>user_data := [(''k'', JArr [JInt 1])]\<rparr>), writable = True\<rparr>)]"
  have py: "py_int 1000 = 1000" by (simp add: py_int_def)
  have cr: "create_session 1000 ''g'' ''tok'' ''https://api'' ''portal'' ''u@x'' ''7'' ''3'' ''5''
          (Some 5000) (Some [(PStr ''k'', PTuple [PInt 1])]) (Some ''abc'') [] = (Inr ''abc'', ?st)"
    unfolding create_session_def
    by (simp add: abc_valid get_session_path_valid dump_key_def dict_of_def py
        sample_session_def Let_def)
  have ne: "\<not> is_expired 1001 ((sample_session (Some 5000))\<lparr>user_data := [(''k'', JArr [JInt 1])]\<rparr>)"
    by (simp add: is_expired_def sample_session_def)
  have m: "map_of ?st ''abc''
             = Some \<lparr>content = Parsed ((sample_session (Some 5000))
                \<lparr>user_data := [(''k'', JArr [JInt 1])]\<rparr>), writable = True\<rparr>" by simp
  have ld: "fst (load_session 1001 ''abc'' ?st)
       = Inr (Some ((sample_session (Some 5000))\<lparr>user_data := [(''k'', JArr [JInt 1])]\<rparr>))"
    using load_session_live[OF abc_valid m _ ne] by simp
  show ?thesis by (simp add: cr ld)
qed

text \<open>
  C6. A record under an accepted id whose session is expired at the time of the load:
  \<^verbatim>\<open>load_session\<close> returns \<^verbatim>\<open>None\<close> and the directory it leaves has no file of that id.
\<close>

theorem expired_load_deletes:
  assumes "is_valid_session_id sid" and "map_of st sid = Some f"
    and "content f = Parsed s" and "is_expired now s"
  shows "load_session now sid st = (Inr None, AList.delete sid st)
         \<and> map_of (snd (load_session now sid st)) sid = None
         \<and> sid \<notin> fst ` set (snd (load_session now sid st))"
  using load_session_expired [OF assms]
  by (simp add: AList.delete_conv' AList.delete_notin_dom)

theorem expired_load_deletes_witness:
  "is_valid_session_id ''abc''
   \<and> map_of [(''abc'', sample_file (Some 1059) True)] ''abc'' = Some (sample_file (Some 1059) True)
   \<and> content (sample_file (Some 1059) True) = Parsed (sample_session (Some 1059))
   \<and> is_expired 1000 (sample_session (Some 1059))
   \<and> load_session 1000 ''abc'' [(''abc'', sample_file (Some 1059) True)] = (Inr None, [])"
  using expired_load_deletes [of "''abc''" "[(''abc'', sample_file (Some 1059) True)]"
      "sample_file (Some 1059) True" "sample_session (Some 1059)" 1000] abc_valid
  by (simp add: sample_file_def sample_session_def is_expired_def)

text \<open>
  C7. A record whose session has no \<open>exp\<close> stays in the directory, with every field but
  \<open>last_accessed\<close> as it was, through \<^verbatim>\<open>load_session\<close> of any id, through
  \<^verbatim>\<open>cleanup_expired_sessions\<close> and through \<^verbatim>\<open>list_sessions\<close>, at any time;
  \<^verbatim>\<open>delete_session\<close> of its id, when the id is an accepted one, removes it.
\<close>

theorem no_expiry_never_removed:
  assumes "map_of st sid = Some f" and "content f = Parsed s" and "exp_time s = None"
  shows "(\<exists>l. map_of (snd (load_session now k st)) sid
                = Some (f\<lparr>content := Parsed (s\<lparr>last_accessed := l\<rparr>)\<rparr>))
         \<and> map_of (snd (cleanup_expired_sessions now st)) sid = Some f
         \<and> live now sid (snd (list_sessions fmt now st))
         \<and> (is_valid_session_id sid \<longrightarrow> map_of (snd (delete_session sid st)) sid = None)"
proof -
  have ne: "\<not> is_expired now s" using assms(3) by (rule is_expired_none)
  have lv: "live now sid st" using assms(1,2) ne by (simp add: live_def)
  have a: "\<exists>l. map_of (snd (load_session now k st)) sid
                = Some (f\<lparr>content := Parsed (s\<lparr>last_accessed := l\<rparr>)\<rparr>)"
    using assms(1,2) ne by (rule unexpired_kept_by_load)
  have b: "map_of (snd (cleanup_expired_sessions now st)) sid = Some f"
    unfolding cleanup_expired_sessions_def using assms(1,2) ne by (rule cleanup_loop_keeps)
  have c: "live now sid (snd (list_sessions fmt now st))"
    unfolding list_sessions_def using lv by (rule list_loop_live)
  have d: "is_valid_session_id sid \<longrightarrow> map_of (snd (delete_session sid st)) sid = None"
    by (simp add: delete_session_removes)
  from a b c d show ?thesis by blast
qed

theorem no_expiry_never_removed_witness:
  "map_of [(''abc'', sample_file None True)] ''abc'' = Some (sample_file None True)
   \<and> content (sample_file None True) = Parsed (sample_session None)
   \<and> exp_time (sample_session None) = None
   \<and> map_of (snd (cleanup_expired_sessions 5000000000 [(''abc'', sample_file None True)])) ''abc''
       = Some (sample_file None True)
   \<and> map_of (snd (delete_session ''abc'' [(''abc'', sample_file None True)])) ''abc'' = None"
  using no_expiry_never_removed [of "[(''abc'', sample_file None True)]" "''abc''"
      "sample_file None True" "sample_session None" 5000000000 "''abc''" "\<lambda>t. None"] abc_valid
  by (simp add: sample_session_def sample_file_def)

text \<open>
  C8. For a record under an accepted id that parses and is not expired, \<^verbatim>\<open>load_session\<close>
  returns the session it read, whatever becomes of the update of the access time: when
  the body of \<^verbatim>\<open>_update_access_time\<close> raises, the caller still gets the session and the
  directory is as it was. A file that may not be written makes it raise.
\<close>

theorem bump_failure_swallowed:
  assumes "is_valid_session_id sid" and "map_of st sid = Some f"
    and "content f = Parsed s" and "\<not> is_expired now s"
  shows "fst (load_session now sid st) = Inr (Some s)
         \<and> (\<forall>e. update_access_time_try now sid st = Inl e \<longrightarrow>
                load_session now sid st = (Inr (Some s), st))
         \<and> (\<not> writable f \<longrightarrow> update_access_time_try now sid st = Inl IOFailure)"
proof -
  have ld: "load_session now sid st = (Inr (Some s), update_access_time now sid st)"
    using assms by (rule load_session_live)
  have a: "fst (load_session now sid st) = Inr (Some s)" using ld by simp
  have b: "\<forall>e. update_access_time_try now sid st = Inl e \<longrightarrow>
                load_session now sid st = (Inr (Some s), st)"
    using ld by (simp add: update_access_time_try_failure)
  have c: "\<not> writable f \<longrightarrow> update_access_time_try now sid st = Inl IOFailure"
    using assms(1,2) by (simp add: update_access_time_try_def get_session_path_valid)
  from a b c show ?thesis by blast
qed

theorem bump_failure_swallowed_witness:
  "is_valid_session_id ''abc''
   \<and> map_of [(''abc'', sample_file (Some 5000) False)] ''abc'' = Some (sample_file (Some 5000) False)
   \<and> content (sample_file (Some 5000) False) = Parsed (sample_session (Some 5000))
   \<and> \<not> is_expired 1000 (sample_session (Some 5000))
   \<and> update_access_time_try 1000 ''abc'' [(''abc'', sample_file (Some 5000) False)] = Inl IOFailure
   \<and> load_session 1000 ''abc'' [(''abc'', sample_file (Some 5000) False)]
       = (Inr (Some (sample_session (Some 5000))), [(''abc'', sample_file (Some 5000) False)])"
proof -
  have h2: "map_of [(''abc'', sample_file (Some 5000) False)] ''abc''
              = Some (sample_file (Some 5000) False)" by simp
  have h3: "content (sample_file (Some 5000) False) = Parsed (sample_session (Some 5000))"
    by (simp add: sample_file_def)
  have h4: "\<not> is_expired 1000 (sample_session (Some 5000))"
    by (simp add: is_expired_def sample_session_def)
  have ro: "\<not> writable (sample_file (Some 5000) False)" by (simp add: sample_file_def)
  note t = bump_failure_swallowed [OF abc_valid h2 h3 h4]
  from t ro have "update_access_time_try 1000 ''abc'' [(''abc'', sample_file (Some 5000) False)]
                    = Inl IOFailure" by blast
  with t abc_valid h2 h3 h4 show ?thesis by blast
qed

text \<open>
  C9. \<^verbatim>\<open>_update_access_time\<close> on a record that parses leaves a record under the same id
  whose fields are those of the old one except \<open>last_accessed\<close>, which is the old value
  or the whole seconds of the current time; when the old value was written from an
  earlier reading of the clock, the new one is not below it. Permissions and every other
  file are as they were, and the directory \<^verbatim>\<open>load_session\<close> leaves for a session that is
  not expired is the one this update leaves.
\<close>

theorem bump_changes_only_last_accessed:
  assumes "map_of st sid = Some f" and "content f = Parsed s"
  shows "\<exists>s'. map_of (update_access_time now sid st) sid = Some (f\<lparr>content := Parsed s'\<rparr>)
           \<and> session_uuid s' = session_uuid s \<and> session_id s' = session_id s
           \<and> token s' = token s \<and> api_url s' = api_url s
           \<and> portal_domain s' = portal_domain s \<and> user_email s' = user_email s
           \<and> app_user_id s' = app_user_id s \<and> company_id s' = company_id s
           \<and> profile_id s' = profile_id s \<and> exp_time s' = exp_time s
           \<and> exp_null s' = exp_null s
           \<and> user_data s' = user_data s \<and> created_at s' = created_at s
           \<and> (last_accessed s' = last_accessed s \<or> last_accessed s' = py_int now)
           \<and> (\<forall>t0. last_accessed s = py_int t0 \<and> t0 \<le> now \<longrightarrow>
                  last_accessed s \<le> last_accessed s')
           \<and> (\<forall>k. k \<noteq> sid \<longrightarrow> map_of (update_access_time now sid st) k = map_of st k)
           \<and> (\<not> is_expired now s \<longrightarrow>
                  snd (load_session now sid st) = update_access_time now sid st)"
proof -
  have fr: "\<forall>k. k \<noteq> sid \<longrightarrow> map_of (update_access_time now sid st) k = map_of st k"
    by (simp add: update_access_time_frame)
  have ld: "\<not> is_expired now s \<longrightarrow>
              snd (load_session now sid st) = update_access_time now sid st"
    using assms valid_nonempty[of sid]
    by (auto simp: load_session_def load_session_try_def get_session_path_def
        update_access_time_def update_access_time_try_def split: prod.splits sum.splits)
  from update_access_time_cases[OF assms, of now] show ?thesis
  proof
    assume same: "update_access_time now sid st = st"
    have "f\<lparr>content := Parsed s\<rparr> = f" using assms(2) by simp
    then have "map_of (update_access_time now sid st) sid = Some (f\<lparr>content := Parsed s\<rparr>)"
      using same assms(1) by simp
    with fr ld show ?thesis by (intro exI[of _ s]) simp
  next
    assume upd: "update_access_time now sid st
           = AList.update sid (f\<lparr>content := Parsed (s\<lparr>last_accessed := py_int now\<rparr>)\<rparr>) st"
    have m: "map_of (update_access_time now sid st) sid
               = Some (f\<lparr>content := Parsed (s\<lparr>last_accessed := py_int now\<rparr>)\<rparr>)"
      by (simp add: upd AList.update_conv')
    have mono: "\<forall>t0. last_accessed s = py_int t0 \<and> t0 \<le> now \<longrightarrow>
                  last_accessed s \<le> py_int now"
      by (auto intro: py_int_mono)
    from m mono fr ld show ?thesis
      by (intro exI[of _ "s\<lparr>last_accessed := py_int now\<rparr>"]) simp
  qed
qed

theorem bump_changes_only_last_accessed_witness:
  "map_of [(''abc'', sample_file (Some 5000) True)] ''abc'' = Some (sample_file (Some 5000) True)
   \<and> content (sample_file (Some 5000) True) = Parsed (sample_session (Some 5000))
   \<and> (\<exists>s'. map_of (update_access_time 2000 ''abc'' [(''abc'', sample_file (Some 5000) True)]) ''abc''
              = Some ((sample_file (Some 5000) True)\<lparr>content := Parsed s'\<rparr>)
            \<and> token s' = token (sample_session (Some 5000))
            \<and> created_at s' = created_at (sample_session (Some 5000)))"
proof -
  have h1: "map_of [(''abc'', sample_file (Some 5000) True)] ''abc''
              = Some (sample_file (Some 5000) True)" by simp
  have h2: "content (sample_file (Some 5000) True) = Parsed (sample_session (Some 5000))"
    by (simp add: sample_file_def)
  from bump_changes_only_last_accessed [OF h1 h2, of 2000] h1 h2 show ?thesis by blast
qed

text \<open>
  C10. A record whose \<open>exp\<close> is present and zero is treated as one with no \<open>exp\<close>: the test
  is false for it at every time, and it stays in the directory through \<^verbatim>\<open>load_session\<close>
  of any id and through \<^verbatim>\<open>cleanup_expired_sessions\<close>.
\<close>

theorem zero_exp_never_expires:
  assumes "exp_time s = Some 0"
  shows "\<not> is_expired now s
         \<and> is_expired now s = is_expired now (s\<lparr>exp_time := None\<rparr>)
         \<and> (map_of st sid = Some f \<and> content f = Parsed s \<longrightarrow>
              (\<exists>l. map_of (snd (load_session now k st)) sid
                      = Some (f\<lparr>content := Parsed (s\<lparr>last_accessed := l\<rparr>)\<rparr>))
              \<and> map_of (snd (cleanup_expired_sessions now st)) sid = Some f)"
proof -
  have ne: "\<not> is_expired now s" using assms by (rule is_expired_zero)
  have same: "is_expired now s = is_expired now (s\<lparr>exp_time := None\<rparr>)"
    using assms by (simp add: is_expired_def)
  have kept: "map_of st sid = Some f \<and> content f = Parsed s \<longrightarrow>
              (\<exists>l. map_of (snd (load_session now k st)) sid
                      = Some (f\<lparr>content := Parsed (s\<lparr>last_accessed := l\<rparr>)\<rparr>))
              \<and> map_of (snd (cleanup_expired_sessions now st)) sid = Some f"
  proof (intro impI, elim conjE)
    assume f: "map_of st sid = Some f" "content f = Parsed s"
    have a: "\<exists>l. map_of (snd (load_session now k st)) sid
                = Some (f\<lparr>content := Parsed (s\<lparr>last_accessed := l\<rparr>)\<rparr>)"
      using f ne by (rule unexpired_kept_by_load)
    have b: "map_of (snd (cleanup_expired_sessions now st)) sid = Some f"
      unfolding cleanup_expired_sessions_def using f ne by (rule cleanup_loop_keeps)
    from a b show "(\<exists>l. map_of (snd (load_session now k st)) sid
                      = Some (f\<lparr>content := Parsed (s\<lparr>last_accessed := l\<rparr>)\<rparr>))
              \<and> map_of (snd (cleanup_expired_sessions now st)) sid = Some f" by blast
  qed
  from ne same kept show ?thesis by blast
qed

theorem zero_exp_never_expires_witness:
  "exp_time (sample_session (Some 0)) = Some 0
   \<and> \<not> is_expired 5000000000 (sample_session (Some 0))
   \<and> map_of (snd (cleanup_expired_sessions 5000000000 [(''abc'', sample_file (Some 0) True)])) ''abc''
       = Some (sample_file (Some 0) True)"
  using zero_exp_never_expires [of "sample_session (Some 0)" 5000000000
      "[(''abc'', sample_file (Some 0) True)]" "''abc''" "sample_file (Some 0) True" "''abc''"]
  by (simp add: sample_session_def sample_file_def)

end
